theory Spec2Isabelle
  imports Complex_Main "HOL-Library.Multiset" "HOL-Library.Log_Nat"
begin

section \<open>CallRail to Google Ads conversion export: the value pipeline\<close>

text \<open>
  The development embeds the value-calculation code of the two serverless functions of
  the repository: the caller-aggregating CSV export and the per-call spreadsheet sync.

  Modelling conventions.
  \<^item> A JavaScript number is the rational it denotes, and an arithmetic operation of the
    source is the exact operation followed by \<open>to_double\<close>, the rounding to the nearest
    binary64 value (53-bit significand, ties to even). The exponent is not bounded: the
    model has no overflow and no subnormal numbers, which the amounts of the pipeline do
    not reach (a total is at most 10995 and an array has fewer than \<open>2^32\<close> elements). \<open>Math.round x\<close> is \<open>\<lfloor>x + 1/2\<rfloor>\<close> (ties go up), exactly. Times are
    integers (milliseconds).
  \<^item> A string is a list of 8-bit code units (the Latin-1 part of UTF-16).
  \<^item> A call record is what \<open>response.json()\<close> delivers, with the field shapes the code
    handles: an absent field and \<open>null\<close> are both \<open>None\<close>, except for the start time,
    where the code tells them apart.
  \<^item> A value that is not a number can leave \<open>getScorePercent\<close> only through the
    prototype chain of its lookup table; it is one of two built-in objects.
\<close>

subsection \<open>Characters and strings\<close>

definition is_digit :: "char \<Rightarrow> bool" where
  \<comment> \<open>the class \<open>\d\<close>\<close>
  "is_digit c = (c \<in> set ''0123456789'')"

definition is_space :: "char \<Rightarrow> bool" where
  \<comment> \<open>the class \<open>\s\<close>, on code units below 256: TAB, LF, VT, FF, CR, SP, NBSP\<close>
  "is_space c = (c \<in> set [CHR 0x09, CHR 0x0A, CHR 0x0B, CHR 0x0C, CHR 0x0D, CHR '' '', CHR 0xA0])"

definition lower_char :: "char \<Rightarrow> char" where
  "lower_char c =
     (let n = (of_char c :: nat)
      in if (65 \<le> n \<and> n \<le> 90) \<or> (192 \<le> n \<and> n \<le> 222 \<and> n \<noteq> 215)
         then char_of (n + 32) else c)"

definition toLowerCase :: "string \<Rightarrow> string" where
  "toLowerCase s = map lower_char s"

fun join :: "string \<Rightarrow> string list \<Rightarrow> string" where
  \<comment> \<open>\<open>Array.prototype.join\<close> on an array of strings\<close>
  "join sep [] = []"
| "join sep [x] = x"
| "join sep (x # y # ys) = x @ sep @ join sep (y # ys)"

definition slice_last :: "nat \<Rightarrow> string \<Rightarrow> string" where
  \<comment> \<open>\<open>s.slice(-n)\<close>: the last \<open>n\<close> code units, the whole string when it is shorter\<close>
  "slice_last n s = drop (length s - n) s"

subsection \<open>Numbers\<close>

definition binary_exponent :: "rat \<Rightarrow> int" where
  \<comment> \<open>the \<open>e\<close> with \<open>2^e \<le> |x| < 2^(e+1)\<close>, for \<open>x\<close> other than 0; the quotient of the
      bit lengths of numerator and denominator is \<open>e\<close> or \<open>e + 1\<close>\<close>
  "binary_exponent x =
     (let d = bitlen (fst (quotient_of \<bar>x\<bar>)) - bitlen (snd (quotient_of \<bar>x\<bar>))
      in if 2 powi d \<le> \<bar>x\<bar> then d else d - 1)"

definition round_half_even :: "rat \<Rightarrow> int" where
  "round_half_even y =
     (let f = \<lfloor>y\<rfloor>; r = y - of_int f
      in if r < 1 / 2 then f else if 1 / 2 < r then f + 1 else if even f then f else f + 1)"

definition to_double :: "rat \<Rightarrow> rat" where
  \<comment> \<open>the nearest multiple of \<open>2^(e-52)\<close>, ties to the even significand\<close>
  "to_double x =
     (if x = 0 then 0
      else (let u = 2 powi (binary_exponent x - 52)
            in of_int (round_half_even (x / u)) * u))"

definition js_mul :: "rat \<Rightarrow> rat \<Rightarrow> rat" where
  "js_mul a b = to_double (a * b)"

definition js_div :: "rat \<Rightarrow> rat \<Rightarrow> rat" where
  "js_div a b = to_double (a / b)"

definition js_add :: "rat \<Rightarrow> rat \<Rightarrow> rat" where
  "js_add a b = to_double (a + b)"

definition math_round :: "rat \<Rightarrow> int" where
  "math_round x = \<lfloor>x + 1/2\<rfloor>"

definition round2 :: "rat \<Rightarrow> rat" where
  \<comment> \<open>\<open>Math.round(x * 100) / 100\<close>\<close>
  "round2 x = js_div (of_int (math_round (js_mul x 100))) 100"

subsection \<open>Call records\<close>

text \<open>
  The shapes of \<open>call.lead_score\<close>: absent or \<open>null\<close>, a boolean, a number, a string, or
  an object, of which the code reads the sub-fields \<open>value\<close>, \<open>percent\<close> and \<open>score\<close> (an
  array is an object without them). A transcript is absent, a string or an object with
  an optional \<open>text\<close>; a tag is a string or an object with an optional \<open>name\<close>. The
  start time is absent, \<open>null\<close> or a string: \<open>new Date\<close> tells the three apart.
\<close>

datatype lead_score =
    LSAbsent
  | LSBool bool
  | LSNum rat
  | LSStr string
  | LSObj (ls_value: "string option") (ls_percent: "rat option") (ls_score: "rat option")

datatype transcription =
    TrAbsent
  | TrStr string
  | TrObj (tr_text: "string option")

datatype date_arg =
    DateUndefined
  | DateNull
  | DateString string

datatype tag =
    TagStr string
  | TagObj (tag_name: "string option")

record call =
  call_id :: string
  call_start_time :: date_arg
  call_duration :: "rat option"
  call_customer_phone_number :: "string option"
  call_source :: "string option"
  call_campaign :: "string option"
  call_landing_page_url :: "string option"
  call_gclid :: "string option"
  call_lead_score :: lead_score
  call_tags :: "tag list option"
  call_note :: "string option"
  call_transcription :: transcription

definition or_empty :: "string option \<Rightarrow> string" where
  \<comment> \<open>\<open>x || ''\<close> on an optional string\<close>
  "or_empty x = (case x of None \<Rightarrow> [] | Some s \<Rightarrow> s)"

subsection \<open>Tiers and configuration\<close>

datatype tier = very_poor | poor | fair | good | very_good

definition products :: "(string \<times> rat) list" where
  "products =
     [(''3'', 895), (''5'', 1095), (''7'', 1395), (''10'', 1995),
      (''15'', 2495), (''20'', 2995), (''25'', 3495), (''30'', 3995),
      (''40'', 4995), (''50'', 5995), (''60'', 6995), (''75'', 8495), (''100'', 10995),
      (''default'', 3500)]"

definition tiers :: "tier \<Rightarrow> rat" where
  "tiers t = (case t of very_poor \<Rightarrow> 0 | poor \<Rightarrow> 1/4 | fair \<Rightarrow> 1/2 | good \<Rightarrow> 3/4 | very_good \<Rightarrow> 1)"

definition or_num :: "rat option \<Rightarrow> rat \<Rightarrow> rat" where
  \<comment> \<open>\<open>x || d\<close> on an optional number: absent and 0 are falsy\<close>
  "or_num x d = (case x of None \<Rightarrow> d | Some v \<Rightarrow> if v = 0 then d else v)"

definition product_truthy :: "string \<Rightarrow> bool" where
  \<comment> \<open>\<open>if (CONFIG.products[hp])\<close>\<close>
  "product_truthy hp = (or_num (map_of products hp) 0 \<noteq> 0)"

definition product_price :: "string \<Rightarrow> rat" where
  \<comment> \<open>\<open>CONFIG.products[p] || CONFIG.products.default\<close>; the catalog holds \<open>default\<close>\<close>
  "product_price p = or_num (map_of products p) (or_num (map_of products ''default'') 0)"

definition tier_multiplier :: "tier \<Rightarrow> rat" where
  \<comment> \<open>\<open>CONFIG.tiers[tier] || 0\<close>\<close>
  "tier_multiplier t = or_num (Some (tiers t)) 0"

subsection \<open>Identifier extraction\<close>

fun gclid_match :: "string \<Rightarrow> string option" where
  \<comment> \<open>\<open>url.match(/[?&]gclid=([^&]+)/)\<close>: group 1 of the leftmost match\<close>
  "gclid_match [] = None"
| "gclid_match (c # cs) =
     (if (c = CHR ''?'' \<or> c = CHR ''&'') \<and> take 6 cs = ''gclid=''
         \<and> takeWhile (\<lambda>d. d \<noteq> CHR ''&'') (drop 6 cs) \<noteq> []
      then Some (takeWhile (\<lambda>d. d \<noteq> CHR ''&'') (drop 6 cs))
      else gclid_match cs)"

definition url_gclid :: "string option \<Rightarrow> string option" where
  \<comment> \<open>the branch on \<open>call.landing_page_url\<close>\<close>
  "url_gclid url = (case url of None \<Rightarrow> None | Some u \<Rightarrow> if u \<noteq> [] then gclid_match u else None)"

definition extractGclid :: "call \<Rightarrow> string option" where
  "extractGclid c =
     (case call_gclid c of
        Some g \<Rightarrow> if g \<noteq> [] then Some g else url_gclid (call_landing_page_url c)
      | None \<Rightarrow> url_gclid (call_landing_page_url c))"

subsection \<open>Lead score\<close>

datatype jsval = JNum rat | JObjectConstructor | JObjectPrototype

definition score_map :: "string \<Rightarrow> jsval option" where
  \<comment> \<open>\<open>map[key]\<close> for the object literal of \<open>getScorePercent\<close>: its five own properties,
      then the properties it inherits from \<open>Object.prototype\<close>. A key produced by
      \<open>toLowerCase\<close> has no capital letter, so of the inherited names only
      \<open>constructor\<close> and \<open>__proto__\<close> can be asked for. \<open>None\<close> is \<open>undefined\<close>.\<close>
  "score_map k =
     (if k = ''very_poor'' then Some (JNum 10)
      else if k = ''poor'' then Some (JNum 30)
      else if k = ''fair'' then Some (JNum 50)
      else if k = ''good'' then Some (JNum 70)
      else if k = ''very_good'' then Some (JNum 90)
      else if k = ''constructor'' then Some JObjectConstructor
      else if k = ''__proto__'' then Some JObjectPrototype
      else None)"

definition getScorePercent :: "call \<Rightarrow> jsval" where
  "getScorePercent c =
     (case call_lead_score c of
        LSAbsent \<Rightarrow> JNum 30
      | LSBool b \<Rightarrow> JNum 30
      | LSNum n \<Rightarrow> if n = 0 then JNum 30 else JNum n
      | LSStr s \<Rightarrow>
          if s = [] then JNum 30
          else (case score_map (toLowerCase s) of None \<Rightarrow> JNum 30 | Some v \<Rightarrow> v)
      | LSObj v p sc \<Rightarrow> JNum (or_num p (or_num sc 30)))"

definition js_ge :: "jsval \<Rightarrow> rat \<Rightarrow> bool" where
  \<comment> \<open>\<open>v >= n\<close>: a built-in object converts to \<open>NaN\<close>, and every comparison with it is false\<close>
  "js_ge v n = (case v of JNum x \<Rightarrow> x \<ge> n | _ \<Rightarrow> False)"

definition js_gt :: "jsval \<Rightarrow> rat \<Rightarrow> bool" where
  "js_gt v n = (case v of JNum x \<Rightarrow> x > n | _ \<Rightarrow> False)"

definition getTier :: "jsval \<Rightarrow> tier" where
  "getTier scorePercent =
     (if js_ge scorePercent 80 then very_good
      else if js_ge scorePercent 60 then good
      else if js_ge scorePercent 40 then fair
      else if js_ge scorePercent 20 then poor
      else very_poor)"

subsection \<open>Phone normalisation\<close>

definition normalizePhone :: "string option \<Rightarrow> string" where
  "normalizePhone phone =
     (case phone of
        None \<Rightarrow> ''unknown''
      | Some p \<Rightarrow> if p = [] then ''unknown'' else slice_last 10 (filter is_digit p))"

subsection \<open>Product detection\<close>

definition object_string :: string where
  \<comment> \<open>what \<open>join\<close> makes of a plain object\<close>
  "object_string = ''[object Object]''"

definition transcription_text :: "transcription \<Rightarrow> string" where
  \<comment> \<open>\<open>call.transcription?.text || call.transcription || ''\<close>, as \<open>join\<close> renders it\<close>
  "transcription_text t =
     (case t of
        TrAbsent \<Rightarrow> []
      | TrStr s \<Rightarrow> s
      | TrObj x \<Rightarrow> (case x of None \<Rightarrow> object_string
                              | Some s \<Rightarrow> if s \<noteq> [] then s else object_string))"

definition tag_text :: "tag \<Rightarrow> string" where
  \<comment> \<open>\<open>t.name || t\<close>, as \<open>join\<close> renders it\<close>
  "tag_text t =
     (case t of
        TagStr s \<Rightarrow> s
      | TagObj x \<Rightarrow> (case x of None \<Rightarrow> object_string
                              | Some s \<Rightarrow> if s \<noteq> [] then s else object_string))"

definition tags_text :: "tag list option \<Rightarrow> string" where
  \<comment> \<open>\<open>(call.tags || []).map(t => t.name || t).join(' ')\<close>\<close>
  "tags_text ts = join '' '' (map tag_text (case ts of None \<Rightarrow> [] | Some l \<Rightarrow> l))"

definition searchText :: "call \<Rightarrow> string" where
  "searchText c =
     toLowerCase (join '' ''
       [transcription_text (call_transcription c), or_empty (call_note c), tags_text (call_tags c)])"

text \<open>
  The three patterns have the shape \<open>(\d+)\s*w\<^sub>1\s*...\s*w\<^sub>n\<close> with the flag \<open>i\<close>; a
  pattern is the list of its words. Every word starts with a letter, so the greedy
  \<open>\d+\<close> and \<open>\s*\<close> can only succeed on the maximal run: backtracking to a shorter run
  leaves a digit or a blank where the next letter is wanted. The matcher below is
  therefore the regular expression's: it tries the start positions from the left and
  returns group 1 of the first match.
\<close>

definition ci_prefix :: "string \<Rightarrow> string \<Rightarrow> bool" where
  \<comment> \<open>the word matches at the head of the text, letters compared without case\<close>
  "ci_prefix w s = (length w \<le> length s \<and> map lower_char (take (length w) s) = map lower_char w)"

fun match_words :: "string list \<Rightarrow> string \<Rightarrow> bool" where
  "match_words [] s = True"
| "match_words (w # ws) s =
     (let s' = dropWhile is_space s
      in if ci_prefix w s' then match_words ws (drop (length w) s') else False)"

fun hp_match :: "string list \<Rightarrow> string \<Rightarrow> string option" where
  \<comment> \<open>\<open>text.match(pattern)\<close>: \<open>None\<close> is \<open>null\<close>, \<open>Some hp\<close> is \<open>match[1]\<close>\<close>
  "hp_match ws [] = None"
| "hp_match ws (c # cs) =
     (if is_digit c \<and> match_words ws (dropWhile is_digit (c # cs))
      then Some (takeWhile is_digit (c # cs))
      else hp_match ws cs)"

definition hpPatterns :: "string list list" where
  "hpPatterns = [[''hp''], [''horse'', ''power''], [''horsepower'']]"

fun try_patterns :: "string list list \<Rightarrow> string \<Rightarrow> string" where
  \<comment> \<open>the loop over \<open>hpPatterns\<close>\<close>
  "try_patterns [] t = ''default''"
| "try_patterns (p # ps) t =
     (case hp_match p t of
        None \<Rightarrow> try_patterns ps t
      | Some hp \<Rightarrow> if product_truthy hp then hp else try_patterns ps t)"

definition detectProduct :: "call \<Rightarrow> string" where
  "detectProduct c = try_patterns hpPatterns (searchText c)"

subsection \<open>Time formatting\<close>

record local_fields =
  getFullYear :: int
  getMonth :: nat
  getDate :: nat
  getHours :: nat
  getMinutes :: nat
  getSeconds :: nat

type_synonym host = "date_arg \<Rightarrow> local_fields option"
  \<comment> \<open>\<open>new Date(isoString)\<close> read through the getters of the host's local time zone;
      \<open>None\<close> is an invalid date, whose getters all return \<open>NaN\<close>. The date of
      \<open>undefined\<close> is invalid on every host, that of \<open>null\<close> is the epoch\<close>

fun digits_of :: "nat \<Rightarrow> string" where
  "digits_of n =
     (if n < 10 then [''0123456789'' ! n]
      else digits_of (n div 10) @ [''0123456789'' ! (n mod 10)])"

definition string_of_int :: "int \<Rightarrow> string" where
  "string_of_int i = (if i < 0 then CHR ''-'' # digits_of (nat (- i)) else digits_of (nat i))"

definition padStart2 :: "string \<Rightarrow> string" where
  \<comment> \<open>\<open>s.padStart(2, '0')\<close>\<close>
  "padStart2 s = replicate (2 - length s) CHR ''0'' @ s"

definition formatGoogleAdsTime :: "host \<Rightarrow> date_arg \<Rightarrow> string" where
  "formatGoogleAdsTime h isoString =
     (case (case isoString of DateUndefined \<Rightarrow> None | _ \<Rightarrow> h isoString) of
        None \<Rightarrow> ''NaN-NaN-NaN NaN:NaN:NaN-0700''
      | Some d \<Rightarrow>
          string_of_int (getFullYear d) @ ''-'' @ padStart2 (digits_of (getMonth d + 1)) @ ''-''
          @ padStart2 (digits_of (getDate d)) @ '' '' @ padStart2 (digits_of (getHours d)) @ '':''
          @ padStart2 (digits_of (getMinutes d)) @ '':'' @ padStart2 (digits_of (getSeconds d))
          @ ''-0700'')"

subsection \<open>The caller-aggregating pipeline (CSV export)\<close>

record conversion =
  gclid :: string
  conversionName :: string
  conversionTime :: string
  conversionValue :: rat
  currency :: string
  callId :: string
  phone :: string
  tier :: tier
  product_key :: string
  productPrice :: rat
  campaign :: string
  source :: string
  duration :: rat
  leadScore :: rat

record stats =
  totalCalls :: nat
  withGclid :: nat
  withValue :: nat
  zeroValue :: nat
  totalValue :: rat

type_synonym entry = "call \<times> string"
  \<comment> \<open>\<open>{ call, gclid }\<close>\<close>

type_synonym groups = "(string \<times> entry list) list"
  \<comment> \<open>\<open>callerGroups\<close>: the own properties in creation order\<close>

fun push_group :: "string \<Rightarrow> entry \<Rightarrow> groups \<Rightarrow> groups" where
  \<comment> \<open>\<open>if (!callerGroups[phone]) callerGroups[phone] = []; callerGroups[phone].push(e)\<close>.
      A key is a digit string, the empty string or \<open>unknown\<close>: none is a name that
      \<open>callerGroups\<close> inherits\<close>
  "push_group k e [] = [(k, [e])]"
| "push_group k e ((k', es) # gs) =
     (if k = k' then (k', es @ [e]) # gs else (k', es) # push_group k e gs)"

definition group_step :: "stats \<times> groups \<Rightarrow> call \<Rightarrow> stats \<times> groups" where
  \<comment> \<open>one turn of the first loop\<close>
  "group_step sg c =
     (case extractGclid c of
        None \<Rightarrow> sg
      | Some g \<Rightarrow>
          if g = [] then sg
          else (fst sg\<lparr>withGclid := withGclid (fst sg) + 1\<rparr>,
                push_group (normalizePhone (call_customer_phone_number c)) (c, g) (snd sg)))"

definition digit_val :: "char \<Rightarrow> nat" where
  "digit_val c = of_char c - 48"

definition digits_val :: "string \<Rightarrow> nat" where
  "digits_val k = foldl (\<lambda>a c. a * 10 + digit_val c) 0 k"

definition is_array_index :: "string \<Rightarrow> bool" where
  \<comment> \<open>a canonical numeric string below \<open>2^32 - 1\<close>\<close>
  "is_array_index k =
     (k \<noteq> [] \<and> list_all is_digit k \<and> (hd k \<noteq> CHR ''0'' \<or> k = ''0'')
      \<and> digits_val k < 4294967295)"

definition for_in_order :: "groups \<Rightarrow> groups" where
  \<comment> \<open>\<open>for (const phone in callerGroups)\<close>: the array-index keys in ascending numeric
      order, then the other keys in creation order\<close>
  "for_in_order gs =
     sort_key (\<lambda>g. digits_val (fst g)) (filter (\<lambda>g. is_array_index (fst g)) gs)
     @ filter (\<lambda>g. \<not> is_array_index (fst g)) gs"

definition scan_step :: "rat \<times> string \<Rightarrow> entry \<Rightarrow> rat \<times> string" where
  \<comment> \<open>one turn of the loop over a group: \<open>(bestScore, bestProduct)\<close>. \<open>bestScore\<close> starts
      as the number 0 and is assigned only a score that compared greater, which is a
      number\<close>
  "scan_step bb e =
     (let score = getScorePercent (fst e);
          bestScore = (if js_gt score (fst bb)
                       then (case score of JNum x \<Rightarrow> x | _ \<Rightarrow> fst bb) else fst bb);
          product = detectProduct (fst e);
          bestProduct = (if product \<noteq> ''default'' then product else snd bb)
      in (bestScore, bestProduct))"

definition scan_group :: "entry list \<Rightarrow> rat \<times> string" where
  "scan_group grp = foldl scan_step (0, ''default'') grp"

definition group_tier :: "entry list \<Rightarrow> tier" where
  "group_tier grp = getTier (JNum (fst (scan_group grp)))"

definition group_totalValue :: "entry list \<Rightarrow> rat" where
  \<comment> \<open>\<open>Math.round(productPrice * multiplier * 100) / 100\<close>\<close>
  "group_totalValue grp =
     round2 (js_mul (product_price (snd (scan_group grp))) (tier_multiplier (group_tier grp)))"

definition perCallValue :: "entry list \<Rightarrow> rat" where
  \<comment> \<open>\<open>Math.round((totalValue / group.length) * 100) / 100\<close>\<close>
  "perCallValue grp = round2 (js_div (group_totalValue grp) (of_nat (length grp)))"

definition make_conversion :: "host \<Rightarrow> entry list \<Rightarrow> entry \<Rightarrow> conversion" where
  \<comment> \<open>the object pushed for one call of a valued group\<close>
  "make_conversion h grp e =
     \<lparr> gclid = snd e,
       conversionName = ''Phone Call'',
       conversionTime = formatGoogleAdsTime h (call_start_time (fst e)),
       conversionValue = perCallValue grp,
       currency = ''USD'',
       callId = call_id (fst e),
       phone = or_empty (call_customer_phone_number (fst e)),
       tier = group_tier grp,
       product_key = snd (scan_group grp),
       productPrice = product_price (snd (scan_group grp)),
       campaign = or_empty (call_campaign (fst e)),
       source = or_empty (call_source (fst e)),
       duration = or_num (call_duration (fst e)) 0,
       leadScore = fst (scan_group grp) \<rparr>"

definition emit :: "host \<Rightarrow> entry list \<Rightarrow> conversion list \<times> stats \<Rightarrow> entry
                    \<Rightarrow> conversion list \<times> stats" where
  \<comment> \<open>one turn of the inner loop over a valued group\<close>
  "emit h grp cs e =
     (fst cs @ [make_conversion h grp e],
      snd cs\<lparr>withValue := withValue (snd cs) + 1,
              totalValue := js_add (totalValue (snd cs)) (perCallValue grp)\<rparr>)"

definition process_group :: "host \<Rightarrow> conversion list \<times> stats \<Rightarrow> string \<times> entry list
                             \<Rightarrow> conversion list \<times> stats" where
  \<comment> \<open>one turn of the second loop\<close>
  "process_group h cs kg =
     (let grp = snd kg in
      if group_totalValue grp \<le> 0
      then (fst cs, snd cs\<lparr>zeroValue := zeroValue (snd cs) + length grp\<rparr>)
      else foldl (emit h grp) cs grp)"

definition initial_stats :: "call list \<Rightarrow> stats" where
  "initial_stats calls =
     \<lparr> totalCalls = length calls, withGclid = 0, withValue = 0, zeroValue = 0, totalValue = 0 \<rparr>"

definition group_calls :: "call list \<Rightarrow> stats \<times> groups" where
  \<comment> \<open>the first loop\<close>
  "group_calls calls = foldl group_step (initial_stats calls, []) calls"

definition process_calls :: "host \<Rightarrow> call list \<Rightarrow> conversion list \<times> stats" where
  \<comment> \<open>from the fetched calls to \<open>conversions\<close> and \<open>stats\<close>\<close>
  "process_calls h calls =
     (let sg = group_calls calls
      in foldl (process_group h) ([], fst sg) (for_in_order (snd sg)))"

record params =
  hours :: "int option"
  days :: "int option"
  format :: "string option"

record response =
  dateRange_from :: int
  dateRange_to :: int
  dateRange_hours :: int
  response_stats :: stats
  uniqueCallers :: nat
  conversions :: "conversion list"
  csv :: bool

definition or_int :: "int option \<Rightarrow> int \<Rightarrow> int" where
  \<comment> \<open>\<open>parseInt(x) || d\<close>: \<open>None\<close> is \<open>NaN\<close>\<close>
  "or_int x d = (case x of None \<Rightarrow> d | Some v \<Rightarrow> if v = 0 then d else v)"

definition hoursBack :: "params \<Rightarrow> int" where
  "hoursBack ps = or_int (hours ps) (or_int (days ps) 7 * 24)"

definition valid_time :: "int \<Rightarrow> bool" where
  \<comment> \<open>the time values of a valid \<open>Date\<close>; \<open>toISOString\<close> throws on any other\<close>
  "valid_time t = (\<bar>t\<bar> \<le> 8640000000000000)"

definition handler :: "host \<Rightarrow> int \<Rightarrow> params \<Rightarrow> (int \<Rightarrow> int \<Rightarrow> string + call list)
                       \<Rightarrow> string + response" where
  \<comment> \<open>the \<open>try\<close> block of the handler: \<open>now\<close> is what \<open>new Date()\<close> reads (milliseconds),
      \<open>fetchAllCalls\<close> is the network; \<open>Inl\<close> is the 500 answer with the error's message.
      The first log line renders both dates with \<open>toISOString\<close>. The answer carries the
      data of the body; its rendering as text is left out\<close>
  "handler h now ps fetchAllCalls =
     (let endDate = now;
          startDate = endDate - hoursBack ps * 60 * 60 * 1000
      in if \<not> valid_time startDate \<or> \<not> valid_time endDate then Inl ''Invalid time value''
         else
           case fetchAllCalls startDate endDate of
             Inl err \<Rightarrow> Inl err
           | Inr calls \<Rightarrow>
               Inr \<lparr> dateRange_from = startDate,
                     dateRange_to = endDate,
                     dateRange_hours = hoursBack ps,
                     response_stats = snd (process_calls h calls),
                     uniqueCallers = length (snd (group_calls calls)),
                     conversions = fst (process_calls h calls),
                     csv = (or_empty (format ps) = ''csv'') \<rparr>)"

subsection \<open>The per-call pipeline (spreadsheet sync)\<close>

definition searchText_sheet :: "call \<Rightarrow> string" where
  \<comment> \<open>as \<open>searchText\<close>, but the transcript is \<open>call.transcription?.text || ''\<close>\<close>
  "searchText_sheet c =
     toLowerCase (join '' ''
       [(case call_transcription c of TrObj x \<Rightarrow> or_empty x | _ \<Rightarrow> []),
        or_empty (call_note c), tags_text (call_tags c)])"

definition detectProduct_sheet :: "call \<Rightarrow> string" where
  "detectProduct_sheet c = try_patterns hpPatterns (searchText_sheet c)"

record value_data =
  vd_value :: rat
  vd_tier :: tier
  vd_product :: string
  vd_productPrice :: rat
  vd_multiplier :: rat

definition scoreValue :: "lead_score \<Rightarrow> string" where
  \<comment> \<open>\<open>(call.lead_score || {}).value || 'unknown'\<close>\<close>
  "scoreValue ls =
     (case ls of
        LSObj v p sc \<Rightarrow> (case v of None \<Rightarrow> ''unknown'' | Some s \<Rightarrow> if s = [] then ''unknown'' else s)
      | _ \<Rightarrow> ''unknown'')"

definition scorePercent :: "lead_score \<Rightarrow> rat" where
  \<comment> \<open>\<open>(call.lead_score || {}).percent || 0\<close>\<close>
  "scorePercent ls = (case ls of LSObj v p sc \<Rightarrow> or_num p 0 | _ \<Rightarrow> 0)"

definition sheet_tier :: "string \<Rightarrow> rat \<Rightarrow> tier" where
  \<comment> \<open>the chain that maps the score to a tier; \<open>tier\<close> starts as \<open>'poor'\<close>\<close>
  "sheet_tier sv sp =
     (if sv = ''very_poor'' \<or> sp < 20 then very_poor
      else if sv = ''poor'' \<or> sp < 40 then poor
      else if sv = ''fair'' \<or> sp < 60 then fair
      else if sv = ''good'' \<or> sp < 80 then good
      else if sv = ''very_good'' \<or> sp \<ge> 80 then very_good
      else poor)"

definition calculateValue :: "call \<Rightarrow> value_data" where
  \<comment> \<open>the returned object without its display string \<open>leadScore\<close>\<close>
  "calculateValue c =
     (let t = sheet_tier (scoreValue (call_lead_score c)) (scorePercent (call_lead_score c));
          product = detectProduct_sheet c;
          price = product_price product;
          multiplier = tier_multiplier t
      in \<lparr> vd_value = round2 (js_mul price multiplier),
            vd_tier = t,
            vd_product = product,
            vd_productPrice = price,
            vd_multiplier = multiplier \<rparr>)"

subsection \<open>Sample inputs\<close>

definition blank_call :: call where
  \<comment> \<open>a call record with every optional field absent\<close>
  "blank_call =
     \<lparr> call_id = ''CAL1'', call_start_time = DateUndefined, call_duration = None,
       call_customer_phone_number = None, call_source = None, call_campaign = None,
       call_landing_page_url = None, call_gclid = None, call_lead_score = LSAbsent,
       call_tags = None, call_note = None, call_transcription = TrAbsent \<rparr>"

definition no_host :: host where
  \<comment> \<open>a host on which every date is invalid\<close>
  "no_host = (\<lambda>s. None)"

definition dash_call :: call where
  \<comment> \<open>a call with a click identifier whose phone number has no digit\<close>
  "dash_call = blank_call\<lparr>call_gclid := Some ''g1'', call_customer_phone_number := Some ''---''\<rparr>"

definition hp25_call :: call where
  \<comment> \<open>a call whose transcript names one size, which is in the catalog\<close>
  "hp25_call = blank_call\<lparr>call_transcription := TrStr ''this customer wants the 25hp model''\<rparr>"

definition hp12_call :: call where
  \<comment> \<open>a call whose transcript names a size outside the catalog before one inside it\<close>
  "hp12_call = blank_call\<lparr>call_transcription := TrStr ''12hp 25hp''\<rparr>"

definition neg_call :: call where
  \<comment> \<open>a call with a numeric lead score below the documented range\<close>
  "neg_call = blank_call\<lparr>call_lead_score := LSNum (- 5)\<rparr>"

definition scored_call :: call where
  \<comment> \<open>a call with a click identifier, the score 85 and a note that names the size 10\<close>
  "scored_call = blank_call\<lparr>call_gclid := Some ''g1'', call_lead_score := LSNum 85,
                            call_note := Some ''10 hp''\<rparr>"

definition plain_call :: call where
  \<comment> \<open>a call with a click identifier and nothing else\<close>
  "plain_call = blank_call\<lparr>call_gclid := Some ''g2''\<rparr>"

definition sample_group :: "entry list" where
  \<comment> \<open>one caller with two calls\<close>
  "sample_group = [(scored_call, ''g1''), (plain_call, ''g2'')]"

definition thirds_group :: "entry list" where
  \<comment> \<open>one caller with three unscored calls\<close>
  "thirds_group = [(plain_call, ''g2''), (plain_call, ''g2''), (plain_call, ''g2'')]"

definition hp3_call :: call where
  \<comment> \<open>an unscored call with a click identifier and a note that names the size 3\<close>
  "hp3_call = blank_call\<lparr>call_gclid := Some ''g3'', call_note := Some ''3 hp''\<rparr>"

definition fifty_group :: "entry list" where
  \<comment> \<open>one caller with fifty such calls\<close>
  "fifty_group = replicate 50 (hp3_call, ''g3'')"

definition sample_calls :: "call list" where
  \<comment> \<open>three fetched calls, the first without a click identifier\<close>
  "sample_calls = [blank_call, scored_call, plain_call]"

definition fixed_fetch :: "int \<Rightarrow> int \<Rightarrow> string + call list" where
  \<comment> \<open>a network that answers every request with the same three calls\<close>
  "fixed_fetch startDate endDate = Inr sample_calls"

definition default_params :: params where
  \<comment> \<open>a request without query parameters\<close>
  "default_params = \<lparr> hours = None, days = None, format = None \<rparr>"

section \<open>Properties\<close>

subsection \<open>Tier classification\<close>

text \<open>
  C2. A percentage of 80 or more is \<open>very_good\<close>, from 60 up to 80 \<open>good\<close>, from 40 up to
  60 \<open>fair\<close>, from 20 up to 40 \<open>poor\<close>, and below 20 \<open>very_poor\<close>; each band includes its
  lower bound, so that 20 is \<open>poor\<close> and 80 is \<open>very_good\<close>.
\<close>

theorem getTier_bands:
  "(80 \<le> p \<longrightarrow> getTier (JNum p) = very_good)
   \<and> (60 \<le> p \<and> p < 80 \<longrightarrow> getTier (JNum p) = good)
   \<and> (40 \<le> p \<and> p < 60 \<longrightarrow> getTier (JNum p) = fair)
   \<and> (20 \<le> p \<and> p < 40 \<longrightarrow> getTier (JNum p) = poor)
   \<and> (p < 20 \<longrightarrow> getTier (JNum p) = very_poor)
   \<and> getTier (JNum 20) = poor \<and> getTier (JNum 80) = very_good"
  by (simp add: getTier_def js_ge_def)

theorem getTier_bands_witness:
  "getTier (JNum 85) = very_good \<and> getTier (JNum 65) = good \<and> getTier (JNum 45) = fair
   \<and> getTier (JNum 25) = poor \<and> getTier (JNum 5) = very_poor"
  using getTier_bands [of 85] getTier_bands [of 65] getTier_bands [of 45]
    getTier_bands [of 25] getTier_bands [of 5]
  by simp

subsection \<open>Phone normalisation\<close>

lemma not_digit_u: "\<not> is_digit CHR ''u''"
  by (simp add: is_digit_def)

lemma normalizePhone_digits: "p \<noteq> [] \<Longrightarrow> set (normalizePhone (Some p)) \<subseteq> Collect is_digit"
  using set_drop_subset [of "length (filter is_digit p) - 10" "filter is_digit p"]
  by (auto simp: normalizePhone_def slice_last_def)

lemma normalizePhone_unknown_iff:
  "normalizePhone ph = ''unknown'' \<longleftrightarrow> ph = None \<or> ph = Some []"
proof (cases ph)
  case None
  then show ?thesis by (simp add: normalizePhone_def)
next
  case (Some p)
  show ?thesis
  proof (cases "p = []")
    case True
    with Some show ?thesis by (simp add: normalizePhone_def)
  next
    case False
    have "normalizePhone (Some p) \<noteq> ''unknown''"
    proof
      assume "normalizePhone (Some p) = ''unknown''"
      with normalizePhone_digits [OF False] have "is_digit CHR ''u''" by auto
      with not_digit_u show False by simp
    qed
    with Some False show ?thesis by simp
  qed
qed

subsection \<open>Lead score\<close>

text \<open>
  What \<open>getScorePercent\<close> returns for each shape of the lead-score field. The last line
  leaves out the two names the lookup table inherits.
\<close>

lemma getScorePercent_shapes:
  "(call_lead_score c \<in> {LSAbsent, LSBool False, LSNum 0, LSStr []} \<longrightarrow> getScorePercent c = JNum 30)
   \<and> (call_lead_score c = LSObj v p sc \<longrightarrow> getScorePercent c = JNum (or_num p (or_num sc 30)))
   \<and> (call_lead_score c = LSNum n \<and> n \<noteq> 0 \<longrightarrow> getScorePercent c = JNum n)
   \<and> (call_lead_score c = LSStr s \<and> toLowerCase s = ''very_poor'' \<longrightarrow> getScorePercent c = JNum 10)
   \<and> (call_lead_score c = LSStr s \<and> toLowerCase s = ''poor'' \<longrightarrow> getScorePercent c = JNum 30)
   \<and> (call_lead_score c = LSStr s \<and> toLowerCase s = ''fair'' \<longrightarrow> getScorePercent c = JNum 50)
   \<and> (call_lead_score c = LSStr s \<and> toLowerCase s = ''good'' \<longrightarrow> getScorePercent c = JNum 70)
   \<and> (call_lead_score c = LSStr s \<and> toLowerCase s = ''very_good'' \<longrightarrow> getScorePercent c = JNum 90)
   \<and> (call_lead_score c = LSStr s
        \<and> toLowerCase s \<notin> {''very_poor'', ''poor'', ''fair'', ''good'', ''very_good'',
                               ''constructor'', ''__proto__''}
       \<longrightarrow> getScorePercent c = JNum 30)"
  by (auto simp: getScorePercent_def score_map_def toLowerCase_def)

lemma getScorePercent_Good:
  "getScorePercent (blank_call\<lparr>call_lead_score := LSStr ''Good''\<rparr>) = JNum 70
   \<and> getTier (JNum 70) = good \<and> tier_multiplier good = 3 / 4"
  by code_simp

text \<open>
  C4. The claim lets every unrecognised string score 30. The lookup \<open>map[key] || 30\<close>
  also finds the properties the table inherits from \<open>Object.prototype\<close>: for the string
  \<open>constructor\<close> it returns the built-in function \<open>Object\<close>, not 30.
\<close>

theorem getScorePercent_inherited_key:
  "getScorePercent (blank_call\<lparr>call_lead_score := LSStr ''constructor''\<rparr>) = JObjectConstructor
   \<and> getScorePercent (blank_call\<lparr>call_lead_score := LSStr ''constructor''\<rparr>) \<noteq> JNum 30"
proof -
  have "getScorePercent (blank_call\<lparr>call_lead_score := LSStr ''constructor''\<rparr>) = JObjectConstructor"
    by code_simp
  then show ?thesis by simp
qed

subsection \<open>The two variants\<close>

text \<open>
  Where the two variants agree: on a structured lead score with a non-zero percentage
  whose \<open>value\<close> sub-field names none of the four tiers below \<open>very_good\<close>.
\<close>

lemma calculateValue_tier_structured:
  assumes "call_lead_score c = LSObj v (Some p) sc" and "p \<noteq> 0"
    and "scoreValue (call_lead_score c) \<notin> {''very_poor'', ''poor'', ''fair'', ''good''}"
  shows "vd_tier (calculateValue c) = getTier (getScorePercent c)"
  using assms
  by (auto simp: calculateValue_def sheet_tier_def scorePercent_def getTier_def
      getScorePercent_def js_ge_def or_num_def Let_def)

text \<open>
  C3. The claim gives every call the same tier in both variants. For a call without a
  lead score the spreadsheet variant does not: its chain starts from \<open>tier = 'poor'\<close>, but
  reads the missing percentage as 0 and so assigns \<open>very_poor\<close>, where the CSV variant
  scores 30 and assigns \<open>poor\<close>.
\<close>

theorem calculateValue_tier_differs:
  "vd_tier (calculateValue blank_call) = very_poor \<and> getTier (getScorePercent blank_call) = poor"
  by (simp add: calculateValue_def sheet_tier_def scoreValue_def scorePercent_def blank_call_def
      getTier_def getScorePercent_def js_ge_def Let_def)

subsection \<open>Product detection\<close>

lemma try_patterns_filter:
  "try_patterns ps t =
     (case filter product_truthy (List.map_filter (\<lambda>p. hp_match p t) ps) of
        [] \<Rightarrow> ''default'' | hp # rest \<Rightarrow> hp)"
  by (induction ps) (auto simp: List.map_filter_simps split: option.splits)

lemma try_patterns_result:
  "try_patterns ps t = ''default''
   \<or> (product_truthy (try_patterns ps t) \<and> (\<exists>p \<in> set ps. hp_match p t = Some (try_patterns ps t)))"
  by (induction ps) (auto split: option.splits)

lemma hp_match_first_number:
  assumes "\<forall>ch \<in> set pre. \<not> is_digit ch" and "ds \<noteq> []" and "\<forall>ch \<in> set ds. is_digit ch"
  shows "hp_match [''hp''] (pre @ ds @ ''hp'' @ post) = Some ds"
  using assms(1)
proof (induction pre)
  case Nil
  obtain d ds' where ds: "ds = d # ds'" using assms(2) by (cases ds) auto
  have nd: "\<not> is_digit CHR ''h''" by (simp add: is_digit_def)
  have ns: "\<not> is_space CHR ''h''" by (simp add: is_space_def)
  have dw: "dropWhile is_digit (ds @ ''hp'' @ post) = ''hp'' @ post"
    using assms(3) nd by (simp add: dropWhile_append)
  have tw: "takeWhile is_digit (ds @ ''hp'' @ post) = ds"
    using assms(3) nd by (simp add: takeWhile_append)
  have mw: "match_words [''hp''] (''hp'' @ post)"
    using ns by (simp add: ci_prefix_def)
  have "is_digit d" using assms(3) ds by simp
  with dw tw mw show ?case by (simp add: ds)
next
  case (Cons a pre)
  then show ?case by simp
qed

text \<open>
  C6, amended. The search text is the lowercased join of transcript, note and tag names.
  Each of the three patterns contributes the capture of its leftmost match only; the
  result is the first of these captures, in the order of the patterns, that is a catalog
  key, and \<open>default\<close> when there is none. A capture outside the catalog sends the loop to
  the next pattern, never to a later match of the same pattern. When the first number of
  the text is a catalog key directly followed by \<open>hp\<close>, that key is the result, as in
  the text \<open>this customer wants the 25hp model\<close>.
\<close>

theorem detectProduct_first_pattern:
  "searchText c = toLowerCase (join '' '' [transcription_text (call_transcription c),
                                          or_empty (call_note c), tags_text (call_tags c)])
   \<and> detectProduct c =
       (case filter product_truthy
               (List.map_filter (\<lambda>p. hp_match p (searchText c))
                  [[''hp''], [''horse'', ''power''], [''horsepower'']]) of
          [] \<Rightarrow> ''default'' | hp # rest \<Rightarrow> hp)
   \<and> (detectProduct c = ''default''
        \<or> (product_truthy (detectProduct c)
            \<and> (\<exists>p \<in> set hpPatterns. hp_match p (searchText c) = Some (detectProduct c))))
   \<and> (searchText c = pre @ ds @ ''hp'' @ post \<and> (\<forall>ch \<in> set pre. \<not> is_digit ch)
        \<and> ds \<noteq> [] \<and> (\<forall>ch \<in> set ds. is_digit ch) \<and> product_truthy ds
       \<longrightarrow> detectProduct c = ds)"
proof -
  have a: "detectProduct c =
       (case filter product_truthy
               (List.map_filter (\<lambda>p. hp_match p (searchText c))
                  [[''hp''], [''horse'', ''power''], [''horsepower'']]) of
          [] \<Rightarrow> ''default'' | hp # rest \<Rightarrow> hp)"
    unfolding detectProduct_def try_patterns_filter hpPatterns_def ..
  have b: "detectProduct c = ''default''
        \<or> (product_truthy (detectProduct c)
            \<and> (\<exists>p \<in> set hpPatterns. hp_match p (searchText c) = Some (detectProduct c)))"
    unfolding detectProduct_def by (rule try_patterns_result)
  have d: "detectProduct c = ds"
    if "searchText c = pre @ ds @ ''hp'' @ post" "\<forall>ch \<in> set pre. \<not> is_digit ch"
       "ds \<noteq> []" "\<forall>ch \<in> set ds. is_digit ch" "product_truthy ds"
    using hp_match_first_number [OF that(2,3,4), of post] that(1,5)
    by (simp add: detectProduct_def hpPatterns_def)
  show ?thesis using a b d by (simp add: searchText_def)
qed

theorem detectProduct_first_pattern_witness:
  "searchText hp25_call = ''this customer wants the 25hp model  ''
   \<and> product_truthy ''25'' \<and> detectProduct hp25_call = ''25'' \<and> product_price ''25'' = 3495"
proof -
  have s: "searchText hp25_call = ''this customer wants the '' @ ''25'' @ ''hp'' @ '' model  ''"
    by code_simp
  have p: "\<forall>ch \<in> set ''this customer wants the ''. \<not> is_digit ch" by code_simp
  have n: "''25'' \<noteq> []" by simp
  have d: "\<forall>ch \<in> set ''25''. is_digit ch" by code_simp
  have t: "product_truthy ''25''" by code_simp
  have pr: "product_price ''25'' = 3495" by code_simp
  from detectProduct_first_pattern [of hp25_call "''this customer wants the ''" "''25''" "'' model  ''"]
    s p n d t
  have "detectProduct hp25_call = ''25''" by blast
  with s t pr show ?thesis by simp
qed

text \<open>
  C6, as stated, fails: the text \<open>12hp 25hp\<close> contains \<open>25hp\<close> and 25 is a catalog key,
  but the first pattern's match captures 12, the other patterns do not match, and the
  rest of the text is not searched again.
\<close>

theorem detectProduct_later_match_counterexample:
  "searchText hp12_call = ''12hp 25hp  '' \<and> map_of products ''25'' = Some 3495
   \<and> detectProduct hp12_call = ''default''"
proof -
  have a: "searchText hp12_call = ''12hp 25hp  ''" by code_simp
  have b: "map_of products ''25'' = Some 3495" by code_simp
  have c: "detectProduct hp12_call = ''default''" by code_simp
  from a b c show ?thesis by simp
qed

subsection \<open>Best score and chosen product of a group\<close>

lemma scan_step_fst:
  "fst (scan_step (b, p) e) =
     fold max (case getScorePercent (fst e) of JNum x \<Rightarrow> [x] | _ \<Rightarrow> []) b"
  by (auto simp: scan_step_def js_gt_def Let_def max_def split: jsval.splits)

lemma scan_step_snd:
  "snd (scan_step (b, p) e) = (if detectProduct (fst e) \<noteq> ''default'' then detectProduct (fst e) else p)"
  by (simp add: scan_step_def Let_def)

lemma foldl_scan_step:
  "foldl scan_step (b, p) grp =
     (fold max (concat (map (\<lambda>e. case getScorePercent (fst e) of JNum x \<Rightarrow> [x] | _ \<Rightarrow> []) grp)) b,
      case filter (\<lambda>q. q \<noteq> ''default'') (map (\<lambda>e. detectProduct (fst e)) grp) of
        [] \<Rightarrow> p | q # qs \<Rightarrow> last (q # qs))"
proof (induction grp arbitrary: b p)
  case Nil
  then show ?case by simp
next
  case (Cons e grp)
  have "foldl scan_step (b, p) (e # grp)
        = foldl scan_step (fst (scan_step (b, p) e), snd (scan_step (b, p) e)) grp"
    by simp
  also have "\<dots> = (fold max (concat (map (\<lambda>e. case getScorePercent (fst e) of JNum x \<Rightarrow> [x] | _ \<Rightarrow> []) grp))
                       (fst (scan_step (b, p) e)),
                    case filter (\<lambda>q. q \<noteq> ''default'') (map (\<lambda>e. detectProduct (fst e)) grp) of
                      [] \<Rightarrow> snd (scan_step (b, p) e) | q # qs \<Rightarrow> last (q # qs))"
    by (rule Cons.IH)
  finally show ?case
    by (simp add: scan_step_fst scan_step_snd split: list.splits)
qed

text \<open>
  C7, amended. The best score of a group is the maximum of 0, the value \<open>bestScore\<close> starts
  with, and the numeric scores of the group's calls; the comparison is strict, so a later
  equal score changes nothing. For a non-empty group whose scores are all non-negative
  numbers it is therefore the maximum score observed: some call has it and no call's
  score is greater. The chosen product is the last detection other than \<open>default\<close> in
  input order, and \<open>default\<close> when there is none.
\<close>

theorem scan_group_best:
  "fst (scan_group grp)
     = Max (set (0 # concat (map (\<lambda>e. case getScorePercent (fst e) of JNum x \<Rightarrow> [x] | _ \<Rightarrow> []) grp)))
   \<and> snd (scan_group grp)
     = (case filter (\<lambda>q. q \<noteq> ''default'') (map (\<lambda>e. detectProduct (fst e)) grp) of
          [] \<Rightarrow> ''default'' | q # qs \<Rightarrow> last (q # qs))
   \<and> (grp \<noteq> [] \<and> (\<forall>e \<in> set grp. \<exists>x. 0 \<le> x \<and> getScorePercent (fst e) = JNum x)
       \<longrightarrow> (\<exists>e \<in> set grp. getScorePercent (fst e) = JNum (fst (scan_group grp)))
           \<and> (\<forall>e \<in> set grp. \<not> js_gt (getScorePercent (fst e)) (fst (scan_group grp))))"
proof -
  let ?nums = "concat (map (\<lambda>e. case getScorePercent (fst e) of JNum x \<Rightarrow> [x] | _ \<Rightarrow> []) grp)"
  have a: "fst (scan_group grp) = Max (set (0 # ?nums))"
    by (simp only: scan_group_def foldl_scan_step fst_conv Max.set_eq_fold)
  have b: "snd (scan_group grp)
     = (case filter (\<lambda>q. q \<noteq> ''default'') (map (\<lambda>e. detectProduct (fst e)) grp) of
          [] \<Rightarrow> ''default'' | q # qs \<Rightarrow> last (q # qs))"
    by (simp only: scan_group_def foldl_scan_step snd_conv)
  have c: "(\<exists>e \<in> set grp. getScorePercent (fst e) = JNum (fst (scan_group grp)))
           \<and> (\<forall>e \<in> set grp. \<not> js_gt (getScorePercent (fst e)) (fst (scan_group grp)))"
    if ne: "grp \<noteq> []" and nn: "\<forall>e \<in> set grp. \<exists>x. 0 \<le> x \<and> getScorePercent (fst e) = JNum x"
  proof -
    have mem: "x \<in> set ?nums \<longleftrightarrow> (\<exists>e \<in> set grp. getScorePercent (fst e) = JNum x)" for x
      by (force split: jsval.splits)
    obtain e0 where e0: "e0 \<in> set grp" using ne by (cases grp) auto
    with nn obtain x0 where x0: "0 \<le> x0" "getScorePercent (fst e0) = JNum x0" by blast
    with e0 have x0in: "x0 \<in> set ?nums" using mem by blast
    have ge: "y \<le> fst (scan_group grp)" if "y \<in> set (0 # ?nums)" for y
      unfolding a by (rule Max_ge [OF finite_set that])
    have "set (0 # ?nums) \<noteq> {}" by (simp del: set_concat)
    then have "fst (scan_group grp) \<in> set (0 # ?nums)"
      unfolding a by (rule Max_in [OF finite_set])
    moreover have "fst (scan_group grp) \<in> set ?nums" if "fst (scan_group grp) = 0"
    proof -
      from ge [of x0] x0in have "x0 \<le> 0" using that by simp
      with x0(1) have "x0 = 0" by simp
      with x0in that show ?thesis by simp
    qed
    ultimately have "fst (scan_group grp) \<in> set ?nums" by auto
    then have 1: "\<exists>e \<in> set grp. getScorePercent (fst e) = JNum (fst (scan_group grp))"
      using mem by blast
    have 2: "\<forall>e \<in> set grp. \<not> js_gt (getScorePercent (fst e)) (fst (scan_group grp))"
    proof
      fix e assume "e \<in> set grp"
      show "\<not> js_gt (getScorePercent (fst e)) (fst (scan_group grp))"
      proof (cases "getScorePercent (fst e)")
        case (JNum x)
        with \<open>e \<in> set grp\<close> have "x \<in> set ?nums" using mem by blast
        then have "x \<le> fst (scan_group grp)" using ge [of x] by simp
        with JNum show ?thesis by (simp add: js_gt_def)
      qed (simp_all add: js_gt_def)
    qed
    from 1 2 show ?thesis ..
  qed
  from a b c show ?thesis by blast
qed

theorem scan_group_best_witness:
  "fst (scan_group [(blank_call\<lparr>call_lead_score := LSNum 85\<rparr>, ''g1''), (hp25_call, ''g2'')]) = 85
   \<and> snd (scan_group [(blank_call\<lparr>call_lead_score := LSNum 85\<rparr>, ''g1''), (hp25_call, ''g2'')]) = ''25''"
proof -
  let ?g = "[(blank_call\<lparr>call_lead_score := LSNum 85\<rparr>, ''g1''), (hp25_call, ''g2'')]"
  have s1: "getScorePercent (blank_call\<lparr>call_lead_score := LSNum 85\<rparr>) = JNum 85" by code_simp
  have s2: "getScorePercent hp25_call = JNum 30" by code_simp
  have d1: "detectProduct (blank_call\<lparr>call_lead_score := LSNum 85\<rparr>) = ''default''" by code_simp
  have d2: "detectProduct hp25_call = ''25''" by code_simp
  show ?thesis using scan_group_best [of ?g] s1 s2 d1 d2 by simp
qed

text \<open>
  C7, as stated, fails: a numeric lead score is passed through unchanged, so a group whose
  only call has the score -5 observes the maximum -5, while its best score stays 0.
\<close>

theorem scan_group_negative_counterexample:
  "getScorePercent neg_call = JNum (- 5) \<and> fst (scan_group [(neg_call, ''g1'')]) = 0"
proof -
  have a: "getScorePercent neg_call = JNum (- 5)" by code_simp
  have b: "fst (scan_group [(neg_call, ''g1'')]) = 0" by code_simp
  from a b show ?thesis ..
qed

subsection \<open>Rounding to doubles\<close>

lemma binary_exponent_le:
  assumes "x \<noteq> 0"
  shows "2 powi binary_exponent x \<le> \<bar>x\<bar>"
proof -
  obtain a b where q: "quotient_of \<bar>x\<bar> = (a, b)" by (cases "quotient_of \<bar>x\<bar>")
  have b: "0 < b" using quotient_of_denom_pos [OF q] .
  have x: "\<bar>x\<bar> = of_int a / of_int b" using quotient_of_div [OF q] .
  have "0 < \<bar>x\<bar>" using assms by simp
  with x b have a: "0 < a" by (simp add: zero_less_divide_iff)
  let ?d = "bitlen a - bitlen b"
  have la: "1 \<le> bitlen a" using a bitlen_eq_zero_iff [of a] bitlen_nonneg [of a] by linarith
  have lo: "(2::int) ^ nat (bitlen a - 1) \<le> a" using bitlen_bounds [OF a] by simp
  have hi: "b \<le> (2::int) ^ nat (bitlen b)" using bitlen_bounds [OF b] by simp
  have eq: "?d - 1 = (bitlen a - 1) - bitlen b" by simp
  have "(2::rat) powi (?d - 1) = 2 powi (bitlen a - 1) / 2 powi bitlen b"
    unfolding eq using power_int_diff [of "2::rat" "bitlen a - 1" "bitlen b"] by fastforce
  also have "\<dots> = 2 ^ nat (bitlen a - 1) / 2 ^ nat (bitlen b)"
    using la bitlen_nonneg [of b] by (simp add: power_int_def)
  also have "\<dots> \<le> of_int a / of_int b"
  proof -
    have A: "(2::rat) ^ nat (bitlen a - 1) \<le> of_int a"
      using lo by (metis of_int_le_iff of_int_numeral of_int_power)
    have B: "(of_int b :: rat) \<le> 2 ^ nat (bitlen b)"
      using hi by (metis of_int_le_iff of_int_numeral of_int_power)
    show ?thesis
      using A B a b by (intro frac_le) simp_all
  qed
  finally have low: "(2::rat) powi (?d - 1) \<le> \<bar>x\<bar>" using x by simp
  show ?thesis
    using low by (simp add: binary_exponent_def q Let_def)
qed

lemma binary_exponent_gt:
  assumes "x \<noteq> 0"
  shows "\<bar>x\<bar> < 2 powi (binary_exponent x + 1)"
proof -
  obtain a b where q: "quotient_of \<bar>x\<bar> = (a, b)" by (cases "quotient_of \<bar>x\<bar>")
  have b: "0 < b" using quotient_of_denom_pos [OF q] .
  have x: "\<bar>x\<bar> = of_int a / of_int b" using quotient_of_div [OF q] .
  have "0 < \<bar>x\<bar>" using assms by simp
  with x b have a: "0 < a" by (simp add: zero_less_divide_iff)
  let ?d = "bitlen a - bitlen b"
  have lb: "1 \<le> bitlen b" using b bitlen_eq_zero_iff [of b] bitlen_nonneg [of b] by linarith
  have hi: "a < (2::int) ^ nat (bitlen a)" using bitlen_bounds [OF a] by simp
  have lo: "(2::int) ^ nat (bitlen b - 1) \<le> b" using bitlen_bounds [OF b] by simp
  have A: "(of_int a :: rat) < 2 ^ nat (bitlen a)"
    using hi by (metis of_int_less_iff of_int_numeral of_int_power)
  have B: "(2::rat) ^ nat (bitlen b - 1) \<le> of_int b"
    using lo by (metis of_int_le_iff of_int_numeral of_int_power)
  have "of_int a / of_int b < (2::rat) ^ nat (bitlen a) / 2 ^ nat (bitlen b - 1)"
    using A B a by (intro frac_less) simp_all
  also have "\<dots> = 2 powi bitlen a / 2 powi (bitlen b - 1)"
    using lb bitlen_nonneg [of a] by (simp add: power_int_def)
  also have "\<dots> = 2 powi (bitlen a - (bitlen b - 1))"
    using power_int_diff [of "2::rat" "bitlen a" "bitlen b - 1"] by simp
  finally have up: "\<bar>x\<bar> < 2 powi (?d + 1)"
    using x by (simp add: algebra_simps)
  show ?thesis
    using up by (auto simp: binary_exponent_def q Let_def)
qed

text \<open>The double nearest to 0.1, as a check of \<open>to_double\<close> against a known value.\<close>

lemma to_double_tenth: "to_double (1 / 10) = 3602879701896397 / 36028797018963968"
  by code_simp

lemma round_half_even_close: "\<bar>of_int (round_half_even y) - y\<bar> \<le> 1 / 2"
proof -
  have "of_int \<lfloor>y\<rfloor> \<le> y" "y < of_int \<lfloor>y\<rfloor> + 1" by linarith+
  then show ?thesis
    by (auto simp: round_half_even_def Let_def abs_le_iff)
qed

lemma to_double_error: "\<bar>to_double x - x\<bar> \<le> \<bar>x\<bar> / 2 ^ 53"
proof (cases "x = 0")
  case True
  then show ?thesis by (simp add: to_double_def)
next
  case False
  let ?e = "binary_exponent x"
  let ?u = "(2::rat) powi (?e - 52)"
  have u: "0 < ?u" by (simp add: zero_less_power_int)
  have "\<bar>of_int (round_half_even (x / ?u)) - x / ?u\<bar> \<le> 1 / 2"
    by (rule round_half_even_close)
  then have "\<bar>of_int (round_half_even (x / ?u)) - x / ?u\<bar> * ?u \<le> 1 / 2 * ?u"
    using u by (simp add: mult_right_mono)
  moreover have "\<bar>of_int (round_half_even (x / ?u)) - x / ?u\<bar> * ?u
                 = \<bar>of_int (round_half_even (x / ?u)) * ?u - x\<bar>"
  proof -
    have "\<bar>of_int (round_half_even (x / ?u)) - x / ?u\<bar> * ?u
          = \<bar>(of_int (round_half_even (x / ?u)) - x / ?u) * ?u\<bar>"
      using u by (simp add: abs_mult)
    also have "(of_int (round_half_even (x / ?u)) - x / ?u) * ?u
               = of_int (round_half_even (x / ?u)) * ?u - x"
      using u by (simp add: algebra_simps)
    finally show ?thesis .
  qed
  ultimately have 1: "\<bar>to_double x - x\<bar> \<le> ?u / 2"
    using False by (simp add: to_double_def Let_def)
  have "?u = 2 powi ?e / 2 ^ 52"
    by (simp add: power_int_diff)
  then have "?u / 2 = 2 powi ?e / 2 ^ 53" by simp
  also have "\<dots> \<le> \<bar>x\<bar> / 2 ^ 53"
    using binary_exponent_le [OF False] by (simp add: divide_right_mono)
  finally show ?thesis using 1 by linarith
qed

lemma round2_div_close:
  assumes "0 \<le> x"
  shows "\<bar>round2 (to_double x) - x\<bar> \<le> 5 / 1000 + (4 * x + 1) / 2 ^ 53"
proof -
  define q where "q = to_double x"
  define y where "y = to_double (q * 100)"
  define k where "k = math_round y"
  define p where "p = to_double (of_int k / 100)"
  have e: "(2::rat) ^ 53 = 9007199254740992" by simp
  have h1: "\<bar>q - x\<bar> \<le> x / 9007199254740992"
    using to_double_error [of x] assms unfolding e by (simp add: q_def)
  then have q0: "0 \<le> q" using assms by linarith
  have h2: "\<bar>y - q * 100\<bar> \<le> q * 100 / 9007199254740992"
    using to_double_error [of "q * 100"] q0 unfolding e by (simp add: y_def)
  then have y0: "0 \<le> y" using q0 by linarith
  have h3: "of_int k \<le> y + 1 / 2" "y + 1 / 2 < of_int k + 1"
    unfolding k_def math_round_def by linarith+
  have "0 \<le> k" using y0 unfolding k_def math_round_def by linarith
  then have k0: "(0::rat) \<le> of_int k" by simp
  have h4: "\<bar>p - of_int k / 100\<bar> \<le> of_int k / 900719925474099200"
    using to_double_error [of "of_int k / 100"] k0 unfolding e by (simp add: p_def)
  have q1: "q \<le> x + x / 9007199254740992" "x - x / 9007199254740992 \<le> q"
    using h1 by linarith+
  have y1: "y \<le> q * 100 + q * 100 / 9007199254740992"
    "q * 100 - q * 100 / 9007199254740992 \<le> y"
    using h2 by linarith+
  have p1: "p \<le> of_int k / 100 + of_int k / 900719925474099200"
    "of_int k / 100 - of_int k / 900719925474099200 \<le> p"
    using h4 by linarith+
  have up: "p - x \<le> 5 / 1000 + 4 * x / 9007199254740992 + 1 / 9007199254740992"
    using q1(1) y1(1) h3(1) p1(1) assms by linarith
  have lo: "- (5 / 1000 + 4 * x / 9007199254740992 + 1 / 9007199254740992) \<le> p - x"
    using q1(2) y1(2) h3(2) p1(2) assms by linarith
  have "\<bar>p - x\<bar> \<le> 5 / 1000 + 4 * x / 9007199254740992 + 1 / 9007199254740992"
    using up lo by linarith
  then have "\<bar>p - x\<bar> \<le> 5 / 1000 + (4 * x + 1) / 2 ^ 53"
    unfolding e by (simp add: add_divide_distrib)
  then show ?thesis
    by (simp add: p_def k_def y_def q_def round2_def js_div_def js_mul_def)
qed

subsection \<open>Value distribution within a group\<close>

lemma foldl_emit:
  "foldl (emit h grp) (cs, st) es =
     (cs @ map (make_conversion h grp) es,
      st\<lparr>withValue := withValue st + length es,
         totalValue := foldl js_add (totalValue st) (replicate (length es) (perCallValue grp))\<rparr>)"
proof (induction es arbitrary: cs st)
  case Nil
  then show ?case by simp
next
  case (Cons e es)
  have "foldl (emit h grp) (cs, st) (e # es)
        = foldl (emit h grp)
            (cs @ [make_conversion h grp e],
             st\<lparr>withValue := withValue st + 1,
                totalValue := js_add (totalValue st) (perCallValue grp)\<rparr>) es"
    by (simp add: emit_def)
  also have "\<dots> = (cs @ map (make_conversion h grp) (e # es),
      st\<lparr>withValue := withValue st + length (e # es),
         totalValue := foldl js_add (totalValue st)
                         (replicate (length (e # es)) (perCallValue grp))\<rparr>)"
    by (simp add: Cons.IH)
  finally show ?case .
qed

lemma process_group_eq:
  "process_group h (cs, st) (k, grp) =
     (if group_totalValue grp \<le> 0
      then (cs, st\<lparr>zeroValue := zeroValue st + length grp\<rparr>)
      else (cs @ map (make_conversion h grp) grp,
            st\<lparr>withValue := withValue st + length grp,
               totalValue := foldl js_add (totalValue st)
                               (replicate (length grp) (perCallValue grp))\<rparr>))"
  by (simp add: process_group_def foldl_emit)

lemma group_totalValue_Nil: "group_totalValue [] = 0"
  by code_simp

lemma map_conversionValue:
  "map conversionValue (map (make_conversion h grp) es) = replicate (length es) (perCallValue grp)"
  by (induction es) (simp_all add: make_conversion_def)

text \<open>
  C1. One turn of the loop over the caller groups, in the arithmetic of the source. The
  total value of the group is \<open>Math.round(price * multiplier * 100) / 100\<close> for the price
  of the chosen product and the multiplier of the best score's tier. When it is not
  positive, no conversion is added and the size of the group is added to \<open>zeroValue\<close>.
  Otherwise one conversion is added per call of the group, in order, each with the value
  \<open>Math.round((totalValue / groupSize) * 100) / 100\<close>, the tier of the group and the chosen
  product.
\<close>

theorem process_group_emission:
  "(group_totalValue grp \<le> 0 \<longrightarrow>
      fst (process_group h (cs, st) (k, grp)) = cs
      \<and> zeroValue (snd (process_group h (cs, st) (k, grp))) = zeroValue st + length grp
      \<and> withValue (snd (process_group h (cs, st) (k, grp))) = withValue st)
   \<and> (0 < group_totalValue grp \<longrightarrow>
      fst (process_group h (cs, st) (k, grp)) = cs @ map (make_conversion h grp) grp
      \<and> withValue (snd (process_group h (cs, st) (k, grp))) = withValue st + length grp
      \<and> zeroValue (snd (process_group h (cs, st) (k, grp))) = zeroValue st)
   \<and> conversionValue (make_conversion h grp e)
       = js_div (of_int \<lfloor>js_mul (js_div (group_totalValue grp) (of_nat (length grp))) 100 + 1 / 2\<rfloor>) 100
   \<and> tier (make_conversion h grp e) = getTier (JNum (fst (scan_group grp)))
   \<and> product_key (make_conversion h grp e) = snd (scan_group grp)
   \<and> gclid (make_conversion h grp e) = snd e
   \<and> callId (make_conversion h grp e) = call_id (fst e)
   \<and> group_totalValue grp
       = js_div (of_int \<lfloor>js_mul (js_mul (product_price (snd (scan_group grp)))
                                          (tier_multiplier (getTier (JNum (fst (scan_group grp))))))
                                  100 + 1 / 2\<rfloor>) 100"
  by (simp add: process_group_eq make_conversion_def perCallValue_def group_tier_def
      group_totalValue_def round2_def math_round_def)

theorem process_group_emission_witness:
  "group_totalValue sample_group = 1995
   \<and> map conversionValue (fst (process_group no_host ([], initial_stats []) (''unknown'', sample_group)))
       = [1995 / 2, 1995 / 2]
   \<and> map tier (fst (process_group no_host ([], initial_stats []) (''unknown'', sample_group)))
       = [very_good, very_good]
   \<and> group_totalValue fifty_group = 895 / 4
   \<and> length fifty_group = 50
   \<and> conversionValue (make_conversion no_host fifty_group (hp3_call, ''g3''))
       = 5032772583586529 / 1125899906842624
   \<and> tier (make_conversion no_host fifty_group (hp3_call, ''g3'')) = poor
   \<and> product_key (make_conversion no_host fifty_group (hp3_call, ''g3'')) = ''3''"
proof -
  have tv: "group_totalValue sample_group = 1995" by code_simp
  have pv: "js_div (of_int \<lfloor>js_mul (js_div 1995 (of_nat (length sample_group))) 100 + 1 / 2\<rfloor>) 100
            = 1995 / 2"
    by code_simp
  have tr: "getTier (JNum (fst (scan_group sample_group))) = very_good" by code_simp
  have sg: "sample_group = [(scored_call, ''g1''), (plain_call, ''g2'')]" by (simp add: sample_group_def)
  note t = process_group_emission [of sample_group no_host "[]" "initial_stats []" "''unknown''"]
  from t [of "(scored_call, ''g1'')"] tv
  have f: "fst (process_group no_host ([], initial_stats []) (''unknown'', sample_group))
           = map (make_conversion no_host sample_group) sample_group"
    by simp
  from t [of "(scored_call, ''g1'')"] tv pv tr
  have v1: "conversionValue (make_conversion no_host sample_group (scored_call, ''g1'')) = 1995 / 2"
    "tier (make_conversion no_host sample_group (scored_call, ''g1'')) = very_good"
    by simp_all
  from t [of "(plain_call, ''g2'')"] tv pv tr
  have v2: "conversionValue (make_conversion no_host sample_group (plain_call, ''g2'')) = 1995 / 2"
    "tier (make_conversion no_host sample_group (plain_call, ''g2'')) = very_good"
    by simp_all
  have a: "map conversionValue (fst (process_group no_host ([], initial_stats []) (''unknown'', sample_group)))
       = [1995 / 2, 1995 / 2]"
    unfolding f by (subst (2) sg) (simp add: v1 v2)
  have b: "map tier (fst (process_group no_host ([], initial_stats []) (''unknown'', sample_group)))
       = [very_good, very_good]"
    unfolding f by (subst (2) sg) (simp add: v1 v2)
  have tv50: "group_totalValue fifty_group = 895 / 4" by code_simp
  have l50: "length fifty_group = 50" by (simp add: fifty_group_def)
  have pv50: "js_div (of_int \<lfloor>js_mul (js_div (895 / 4) 50) 100 + 1 / 2\<rfloor>) 100
              = 5032772583586529 / 1125899906842624"
    by code_simp
  have tr50: "getTier (JNum (fst (scan_group fifty_group))) = poor" by code_simp
  have pk50: "snd (scan_group fifty_group) = ''3''" by code_simp
  note u = process_group_emission [of fifty_group no_host "[]" "initial_stats []" "''unknown''"
      "(hp3_call, ''g3'')"]
  from u tv50 l50 pv50 tr50 pk50
  have c: "conversionValue (make_conversion no_host fifty_group (hp3_call, ''g3''))
             = 5032772583586529 / 1125899906842624"
    "tier (make_conversion no_host fifty_group (hp3_call, ''g3'')) = poor"
    "product_key (make_conversion no_host fifty_group (hp3_call, ''g3'')) = ''3''"
    by simp_all
  from tv a b tv50 l50 c show ?thesis by blast
qed

text \<open>
  C8, as stated, fails in the arithmetic of the source. Fifty calls of one caller, product
  3 at tier \<open>poor\<close>, share 223.75: \<open>223.75 / 50 * 100\<close> is the double just below 447.5, so
  each call gets the double nearest to 4.47, which lies below 4.47, and the fifty values
  miss the total by more than \<open>50 * 0.005\<close>, in exact terms and against the bound computed
  in doubles.
\<close>

theorem split_bound_exceeded:
  "0 < group_totalValue fifty_group
   \<and> of_nat (length fifty_group) * (5 / 1000)
       < \<bar>sum_list (map conversionValue
                      (fst (process_group no_host ([], initial_stats []) (''unknown'', fifty_group))))
          - group_totalValue fifty_group\<bar>
   \<and> js_mul (of_nat (length fifty_group)) (to_double (5 / 1000))
       < \<bar>sum_list (map conversionValue
                      (fst (process_group no_host ([], initial_stats []) (''unknown'', fifty_group))))
          - group_totalValue fifty_group\<bar>"
proof -
  have tv: "group_totalValue fifty_group = 895 / 4" by code_simp
  have l: "length fifty_group = 50" by (simp add: fifty_group_def)
  have pv: "perCallValue fifty_group = 5032772583586529 / 1125899906842624" by code_simp
  have b: "js_mul (of_nat (length fifty_group)) (to_double (5 / 1000)) = 1 / 4" by code_simp
  have f: "fst (process_group no_host ([], initial_stats []) (''unknown'', fifty_group))
        = map (make_conversion no_host fifty_group) fifty_group"
    by (simp add: process_group_eq tv)
  have "map conversionValue
          (fst (process_group no_host ([], initial_stats []) (''unknown'', fifty_group)))
        = replicate 50 (5032772583586529 / 1125899906842624)"
    by (simp only: f map_conversionValue l pv)
  then have s: "sum_list (map conversionValue
                      (fst (process_group no_host ([], initial_stats []) (''unknown'', fifty_group))))
        = 50 * (5032772583586529 / 1125899906842624)"
    by (simp add: sum_list_replicate)
  have c1: "0 < group_totalValue fifty_group" by (simp add: tv)
  have c2: "of_nat (length fifty_group) * (5 / 1000)
       < \<bar>sum_list (map conversionValue
                      (fst (process_group no_host ([], initial_stats []) (''unknown'', fifty_group))))
          - group_totalValue fifty_group\<bar>"
    unfolding s tv l by simp
  have c3: "js_mul (of_nat (length fifty_group)) (to_double (5 / 1000))
       < \<bar>sum_list (map conversionValue
                      (fst (process_group no_host ([], initial_stats []) (''unknown'', fifty_group))))
          - group_totalValue fifty_group\<bar>"
    unfolding b s tv by simp
  from c1 c2 c3 show ?thesis by blast
qed

text \<open>
  C8, amended. For a group with a positive total value, the values of the conversions it
  emits sum to within \<open>groupSize * 0.005 + (4 * totalValue + groupSize) * 2^-53\<close> of the
  total; the second term covers the rounding of the three double operations. All
  conversions of the group carry the same value, tier and product. The sum is not
  corrected: \<open>stats.totalValue\<close> takes the rounded per-call value once per call.
\<close>

theorem split_near_half_cent:
  "0 < group_totalValue grp \<longrightarrow>
     drop (length cs) (fst (process_group h (cs, st) (k, grp))) = map (make_conversion h grp) grp
     \<and> \<bar>sum_list (map conversionValue (drop (length cs) (fst (process_group h (cs, st) (k, grp)))))
          - group_totalValue grp\<bar>
         \<le> of_nat (length grp) * (5 / 1000)
            + (4 * group_totalValue grp + of_nat (length grp)) / 2 ^ 53
     \<and> (\<forall>c \<in> set (drop (length cs) (fst (process_group h (cs, st) (k, grp)))).
           conversionValue c = round2 (js_div (group_totalValue grp) (of_nat (length grp)))
           \<and> tier c = group_tier grp \<and> product_key c = snd (scan_group grp)
           \<and> productPrice c = product_price (snd (scan_group grp)))
     \<and> totalValue (snd (process_group h (cs, st) (k, grp)))
         = foldl js_add (totalValue st)
             (replicate (length grp) (round2 (js_div (group_totalValue grp) (of_nat (length grp)))))"
proof
  assume pos: "0 < group_totalValue grp"
  let ?n = "length grp"
  let ?T = "group_totalValue grp"
  let ?p = "round2 (js_div ?T (of_nat ?n))"
  let ?new = "drop (length cs) (fst (process_group h (cs, st) (k, grp)))"
  have new: "?new = map (make_conversion h grp) grp"
    using pos by (simp add: process_group_eq)
  have n: "0 < ?n" using pos group_totalValue_Nil by (cases grp) auto
  have sum: "sum_list (map conversionValue ?new) = of_nat ?n * ?p"
    unfolding new map_conversionValue by (simp add: sum_list_replicate perCallValue_def)
  let ?x = "?T / of_nat ?n"
  have x0: "0 \<le> ?x" using pos by simp
  have nx: "of_nat ?n * ?x = ?T" using n by simp
  have close: "\<bar>?p - ?x\<bar> \<le> 5 / 1000 + (4 * ?x + 1) / 2 ^ 53"
    using round2_div_close [OF x0] by (simp add: js_div_def)
  have "of_nat ?n * ?p - ?T = of_nat ?n * (?p - ?x)"
    using nx by (simp add: algebra_simps)
  then have "\<bar>of_nat ?n * ?p - ?T\<bar> = of_nat ?n * \<bar>?p - ?x\<bar>"
    by (simp add: abs_mult)
  also have "\<dots> \<le> of_nat ?n * (5 / 1000 + (4 * ?x + 1) / 2 ^ 53)"
    by (rule mult_left_mono [OF close]) simp
  also have "\<dots> = of_nat ?n * (5 / 1000) + (4 * (of_nat ?n * ?x) + of_nat ?n) / 2 ^ 53"
    by (simp add: algebra_simps add_divide_distrib)
  finally have bound: "\<bar>sum_list (map conversionValue ?new) - ?T\<bar>
      \<le> of_nat ?n * (5 / 1000) + (4 * ?T + of_nat ?n) / 2 ^ 53"
    unfolding sum nx .
  have meta: "\<forall>c \<in> set ?new.
           conversionValue c = ?p
           \<and> tier c = group_tier grp \<and> product_key c = snd (scan_group grp)
           \<and> productPrice c = product_price (snd (scan_group grp))"
    unfolding new by (auto simp: make_conversion_def perCallValue_def)
  have tot: "totalValue (snd (process_group h (cs, st) (k, grp)))
         = foldl js_add (totalValue st) (replicate ?n ?p)"
    using pos by (simp add: process_group_eq perCallValue_def)
  from new bound meta tot
  show "?new = map (make_conversion h grp) grp
     \<and> \<bar>sum_list (map conversionValue ?new) - ?T\<bar>
         \<le> of_nat ?n * (5 / 1000) + (4 * ?T + of_nat ?n) / 2 ^ 53
     \<and> (\<forall>c \<in> set ?new.
           conversionValue c = ?p
           \<and> tier c = group_tier grp \<and> product_key c = snd (scan_group grp)
           \<and> productPrice c = product_price (snd (scan_group grp)))
     \<and> totalValue (snd (process_group h (cs, st) (k, grp)))
         = foldl js_add (totalValue st) (replicate ?n ?p)"
    by blast
qed

theorem split_near_half_cent_witness:
  "0 < group_totalValue thirds_group
   \<and> map conversionValue
         (fst (process_group no_host ([], initial_stats []) (''unknown'', thirds_group)))
       = replicate 3 (5131112903574815 / 17592186044416)
   \<and> \<bar>sum_list (map conversionValue
                     (fst (process_group no_host ([], initial_stats []) (''unknown'', thirds_group))))
        - 875\<bar> \<le> 3 * (5 / 1000) + (4 * 875 + 3) / 2 ^ 53
   \<and> totalValue (snd (process_group no_host ([], initial_stats []) (''unknown'', thirds_group)))
       = 3848334677681111 / 4398046511104"
proof -
  have tv: "group_totalValue thirds_group = 875" by code_simp
  have pos: "0 < group_totalValue thirds_group" by (simp add: tv)
  have len: "length thirds_group = 3" by (simp add: thirds_group_def)
  have pv: "round2 (js_div 875 3) = 5131112903574815 / 17592186044416" by code_simp
  have acc: "foldl js_add 0 (replicate 3 (5131112903574815 / 17592186044416))
             = 3848334677681111 / 4398046511104"
    by code_simp
  have z: "totalValue (initial_stats []) = 0" by (simp add: initial_stats_def)
  let ?P = "process_group no_host ([], initial_stats []) (''unknown'', thirds_group)"
  note t = split_near_half_cent [of thirds_group "[]" no_host "initial_stats []" "''unknown''"]
  from t pos
  have n: "drop (length ([] :: conversion list)) (fst ?P)
           = map (make_conversion no_host thirds_group) thirds_group"
    by blast
  from t pos
  have a: "\<bar>sum_list (map conversionValue (drop (length ([] :: conversion list)) (fst ?P)))
            - group_totalValue thirds_group\<bar>
           \<le> of_nat (length thirds_group) * (5 / 1000)
              + (4 * group_totalValue thirds_group + of_nat (length thirds_group)) / 2 ^ 53"
    by blast
  from t pos
  have b: "totalValue (snd ?P)
         = foldl js_add (totalValue (initial_stats []))
             (replicate (length thirds_group)
                (round2 (js_div (group_totalValue thirds_group) (of_nat (length thirds_group)))))"
    by blast
  from n have "fst ?P = map (make_conversion no_host thirds_group) thirds_group" by simp
  then have n': "map conversionValue (fst ?P) = replicate 3 (5131112903574815 / 17592186044416)"
    by (simp only: map_conversionValue len perCallValue_def tv pv of_nat_numeral)
  from a have a': "\<bar>sum_list (map conversionValue (fst ?P)) - 875\<bar>
                    \<le> 3 * (5 / 1000) + (4 * 875 + 3) / 2 ^ 53"
    by (simp add: len tv)
  from b have b': "totalValue (snd ?P) = 3848334677681111 / 4398046511104"
    by (simp only: len tv z of_nat_numeral pv acc)
  from pos n' a' b' show ?thesis by blast
qed

subsection \<open>The two loops of the pipeline\<close>

lemma gclid_match_nonempty: "gclid_match u \<noteq> Some []"
  by (induction u) auto

lemma extractGclid_nonempty: "extractGclid c \<noteq> Some []"
  using gclid_match_nonempty
  by (auto simp: extractGclid_def url_gclid_def split: option.splits if_splits)

lemma group_step_skip: "extractGclid c = None \<Longrightarrow> group_step sg c = sg"
  by (simp add: group_step_def)

lemma group_step_take:
  "extractGclid c = Some g \<Longrightarrow>
   group_step sg c = (fst sg\<lparr>withGclid := withGclid (fst sg) + 1\<rparr>,
                      push_group (normalizePhone (call_customer_phone_number c)) (c, g) (snd sg))"
  using extractGclid_nonempty [of c] by (auto simp: group_step_def)

lemma foldl_group_step_filter:
  "foldl group_step sg calls = foldl group_step sg (filter (\<lambda>c. extractGclid c \<noteq> None) calls)"
  by (induction calls arbitrary: sg) (auto simp: group_step_skip)

lemma push_group_size:
  "sum_list (map (\<lambda>kg. length (snd kg)) (push_group k e gs))
     = Suc (sum_list (map (\<lambda>kg. length (snd kg)) gs))"
  by (induction gs) auto

lemma push_group_entries:
  "(\<Union>kg \<in> set (push_group k e gs). set (snd kg)) = insert e (\<Union>kg \<in> set gs. set (snd kg))"
  by (induction k e gs rule: push_group.induct) auto

lemma foldl_group_step_stats:
  "withGclid (fst (foldl group_step sg calls))
     = withGclid (fst sg) + length (filter (\<lambda>c. extractGclid c \<noteq> None) calls)
   \<and> totalCalls (fst (foldl group_step sg calls)) = totalCalls (fst sg)
   \<and> withValue (fst (foldl group_step sg calls)) = withValue (fst sg)
   \<and> zeroValue (fst (foldl group_step sg calls)) = zeroValue (fst sg)
   \<and> sum_list (map (\<lambda>kg. length (snd kg)) (snd (foldl group_step sg calls)))
     = sum_list (map (\<lambda>kg. length (snd kg)) (snd sg))
       + length (filter (\<lambda>c. extractGclid c \<noteq> None) calls)"
proof (induction calls arbitrary: sg)
  case Nil
  then show ?case by simp
next
  case (Cons c calls)
  show ?case
  proof (cases "extractGclid c")
    case None
    then show ?thesis using Cons.IH [of sg] by (simp add: group_step_skip)
  next
    case (Some g)
    then show ?thesis
      using Cons.IH [of "group_step sg c"] by (simp add: group_step_take push_group_size)
  qed
qed

lemma foldl_group_step_entries:
  "(\<Union>kg \<in> set (snd (foldl group_step sg calls)). set (snd kg))
     \<subseteq> (\<Union>kg \<in> set (snd sg). set (snd kg)) \<union> {(c, g). c \<in> set calls \<and> extractGclid c = Some g}"
proof (induction calls arbitrary: sg)
  case Nil
  then show ?case by simp
next
  case (Cons c calls)
  show ?case
  proof (cases "extractGclid c")
    case None
    then show ?thesis using Cons.IH [of sg] by (auto simp: group_step_skip)
  next
    case (Some g)
    have "(\<Union>kg \<in> set (snd (group_step sg c)). set (snd kg))
            = insert (c, g) (\<Union>kg \<in> set (snd sg). set (snd kg))"
      by (simp only: group_step_take [OF Some] snd_conv push_group_entries)
    with Cons.IH [of "group_step sg c"] Some show ?thesis by auto
  qed
qed

lemma for_in_order_mset: "mset (for_in_order gs) = mset gs"
  by (simp add: for_in_order_def)

lemma for_in_order_size:
  "sum_list (map f (for_in_order gs)) = sum_list (map f gs)" for f :: "string \<times> entry list \<Rightarrow> nat"
proof -
  have "sum_mset (image_mset f (mset (for_in_order gs))) = sum_mset (image_mset f (mset gs))"
    by (simp only: for_in_order_mset)
  then show ?thesis by (simp only: mset_map [symmetric] sum_mset_sum_list)
qed

lemma for_in_order_set: "set (for_in_order gs) = set gs"
  using for_in_order_mset [of gs] by (metis set_mset_mset)

lemma foldl_process_group_fst:
  "fst (foldl (process_group h) (cs, st) gs)
     = cs @ concat (map (\<lambda>kg. if group_totalValue (snd kg) \<le> 0 then []
                                 else map (make_conversion h (snd kg)) (snd kg)) gs)"
proof (induction gs arbitrary: cs st)
  case Nil
  then show ?case by simp
next
  case (Cons kg gs)
  obtain k grp where kg: "kg = (k, grp)" by (cases kg)
  show ?case
    by (simp add: kg process_group_eq Cons.IH)
qed

lemma foldl_process_group_stats:
  "withValue (snd (foldl (process_group h) (cs, st) gs))
      + zeroValue (snd (foldl (process_group h) (cs, st) gs))
     = withValue st + zeroValue st + sum_list (map (\<lambda>kg. length (snd kg)) gs)
   \<and> withGclid (snd (foldl (process_group h) (cs, st) gs)) = withGclid st
   \<and> totalCalls (snd (foldl (process_group h) (cs, st) gs)) = totalCalls st
   \<and> length (fst (foldl (process_group h) (cs, st) gs)) + withValue st
     = length cs + withValue (snd (foldl (process_group h) (cs, st) gs))"
proof (induction gs arbitrary: cs st)
  case Nil
  then show ?case by simp
next
  case (Cons kg gs)
  obtain k grp where kg: "kg = (k, grp)" by (cases kg)
  show ?case
  proof (cases "group_totalValue grp \<le> 0")
    case True
    then show ?thesis
      using Cons.IH [of cs "st\<lparr>zeroValue := zeroValue st + length grp\<rparr>"]
      by (simp add: kg process_group_eq)
  next
    case False
    then show ?thesis
      using Cons.IH [of "cs @ map (make_conversion h grp) grp"
          "st\<lparr>withValue := withValue st + length grp,
             totalValue := foldl js_add (totalValue st)
                             (replicate (length grp) (perCallValue grp))\<rparr>"]
      by (simp add: kg process_group_eq)
  qed
qed

lemma foldl_group_step_snd:
  "snd (foldl group_step (st, gs) calls) = snd (foldl group_step (st', gs) calls)"
proof (induction calls arbitrary: st st' gs)
  case Nil
  then show ?case by simp
next
  case (Cons c calls)
  show ?case
  proof (cases "extractGclid c")
    case None
    then show ?thesis using Cons.IH by (simp add: group_step_skip)
  next
    case (Some g)
    then show ?thesis using Cons.IH by (simp add: group_step_take)
  qed
qed

lemma group_calls_filter:
  "snd (group_calls calls) = snd (group_calls (filter (\<lambda>c. extractGclid c \<noteq> None) calls))"
proof -
  have "snd (group_calls calls)
        = snd (foldl group_step (initial_stats calls, []) (filter (\<lambda>c. extractGclid c \<noteq> None) calls))"
    unfolding group_calls_def by (subst foldl_group_step_filter) (rule refl)
  also have "\<dots> = snd (group_calls (filter (\<lambda>c. extractGclid c \<noteq> None) calls))"
    unfolding group_calls_def by (rule foldl_group_step_snd)
  finally show ?thesis .
qed

lemma process_calls_fst:
  "fst (process_calls h calls)
     = concat (map (\<lambda>kg. if group_totalValue (snd kg) \<le> 0 then []
                           else map (make_conversion h (snd kg)) (snd kg))
                 (for_in_order (snd (group_calls calls))))"
  by (simp add: process_calls_def Let_def foldl_process_group_fst)

lemma group_calls_entries:
  assumes "kg \<in> set (snd (group_calls calls))" and "e \<in> set (snd kg)"
  shows "fst e \<in> set calls \<and> extractGclid (fst e) = Some (snd e)"
proof -
  from assms have "e \<in> (\<Union>kg \<in> set (snd (group_calls calls)). set (snd kg))" by blast
  with foldl_group_step_entries [of "(initial_stats calls, [])" calls]
  have "e \<in> {(c, g). c \<in> set calls \<and> extractGclid c = Some g}"
    by (auto simp: group_calls_def)
  then show ?thesis by auto
qed

text \<open>
  C5. After a run the counters reconcile: \<open>totalCalls\<close> is \<open>withGclid\<close> plus the number of
  calls without an identifier, and \<open>withGclid\<close> is \<open>withValue\<close> plus \<open>zeroValue\<close>. A call
  without an identifier is not counted in \<open>withGclid\<close> and yields no conversion: the
  conversions are those of the run over the calls that have one, there are \<open>withValue\<close> of
  them, and each carries the identifier extracted from one of the calls.
\<close>

theorem stats_reconcile:
  "totalCalls (snd (process_calls h calls)) = length calls
   \<and> totalCalls (snd (process_calls h calls))
       = withGclid (snd (process_calls h calls)) + length (filter (\<lambda>c. extractGclid c = None) calls)
   \<and> withGclid (snd (process_calls h calls))
       = withValue (snd (process_calls h calls)) + zeroValue (snd (process_calls h calls))
   \<and> withGclid (snd (process_calls h calls)) = length (filter (\<lambda>c. extractGclid c \<noteq> None) calls)
   \<and> length (fst (process_calls h calls)) = withValue (snd (process_calls h calls))
   \<and> fst (process_calls h calls)
       = fst (process_calls h (filter (\<lambda>c. extractGclid c \<noteq> None) calls))
   \<and> (\<forall>cv \<in> set (fst (process_calls h calls)).
         \<exists>c \<in> set calls. extractGclid c = Some (gclid cv) \<and> callId cv = call_id c)"
proof -
  let ?sg = "group_calls calls"
  let ?R = "foldl (process_group h) ([], fst ?sg) (for_in_order (snd ?sg))"
  let ?n = "length (filter (\<lambda>c. extractGclid c \<noteq> None) calls)"
  have R: "process_calls h calls = ?R" by (simp add: process_calls_def Let_def)
  note g = foldl_group_step_stats [of "(initial_stats calls, [])" calls, folded group_calls_def]
  note p = foldl_process_group_stats [of h "[]" "fst ?sg" "for_in_order (snd ?sg)"]
  have g1: "withGclid (fst ?sg) = ?n" using g by (simp add: initial_stats_def)
  have g2: "totalCalls (fst ?sg) = length calls" using g by (simp add: initial_stats_def)
  have g3: "withValue (fst ?sg) = 0" "zeroValue (fst ?sg) = 0" using g by (simp_all add: initial_stats_def)
  have g4: "sum_list (map (\<lambda>kg. length (snd kg)) (snd ?sg)) = ?n" using g by simp
  have split: "length calls = ?n + length (filter (\<lambda>c. extractGclid c = None) calls)"
    using sum_length_filter_compl [of "\<lambda>c. extractGclid c \<noteq> None" calls] by simp
  have a: "totalCalls (snd ?R) = length calls" using p g2 by simp
  have d: "withGclid (snd ?R) = ?n" using p g1 by simp
  have c: "withGclid (snd ?R) = withValue (snd ?R) + zeroValue (snd ?R)"
    using p g3 g4 d by (simp add: for_in_order_size)
  have e: "length (fst ?R) = withValue (snd ?R)" using p g3 by simp
  have f: "fst (process_calls h calls)
       = fst (process_calls h (filter (\<lambda>c. extractGclid c \<noteq> None) calls))"
    unfolding process_calls_fst by (subst group_calls_filter) (rule refl)
  have i: "\<exists>c \<in> set calls. extractGclid c = Some (gclid cv) \<and> callId cv = call_id c"
    if "cv \<in> set (fst (process_calls h calls))" for cv
  proof -
    from that obtain kg e where kg: "kg \<in> set (for_in_order (snd ?sg))"
      and e: "e \<in> set (snd kg)" and cv: "cv = make_conversion h (snd kg) e"
      unfolding process_calls_fst by (auto split: if_splits)
    from kg have "kg \<in> set (snd ?sg)" by (simp add: for_in_order_set)
    from group_calls_entries [OF this e]
    have "fst e \<in> set calls" "extractGclid (fst e) = Some (snd e)" by simp_all
    moreover have "gclid cv = snd e" "callId cv = call_id (fst e)"
      by (simp_all add: cv make_conversion_def)
    ultimately show ?thesis by auto
  qed
  from a d c e f i split show ?thesis unfolding R by (simp only:) blast
qed

theorem stats_reconcile_witness:
  "length (filter (\<lambda>c. extractGclid c = None) sample_calls) = 1
   \<and> totalCalls (snd (process_calls no_host sample_calls)) = 3
   \<and> withGclid (snd (process_calls no_host sample_calls)) = 2
   \<and> withValue (snd (process_calls no_host sample_calls)) = 2
   \<and> zeroValue (snd (process_calls no_host sample_calls)) = 0
   \<and> length (fst (process_calls no_host sample_calls)) = 2"
proof -
  have l: "length sample_calls = 3" by (simp add: sample_calls_def)
  have n: "length (filter (\<lambda>c. extractGclid c = None) sample_calls) = 1" by code_simp
  have v: "withValue (snd (process_calls no_host sample_calls)) = 2" by code_simp
  let ?st = "snd (process_calls no_host sample_calls)"
  note t = stats_reconcile [of no_host sample_calls]
  from t have a: "totalCalls ?st = length sample_calls" by blast
  from t have b: "totalCalls ?st
       = withGclid ?st + length (filter (\<lambda>c. extractGclid c = None) sample_calls)" by blast
  from t have c: "withGclid ?st = withValue ?st + zeroValue ?st" by blast
  from t have e: "length (fst (process_calls no_host sample_calls)) = withValue ?st" by blast
  from a l have a': "totalCalls ?st = 3" by simp
  from b a' n have b': "withGclid ?st = 2" by simp
  from c b' v have c': "zeroValue ?st = 0" by simp
  from e v have e': "length (fst (process_calls no_host sample_calls)) = 2" by simp
  from n a' b' v c' e' show ?thesis by blast
qed

subsection \<open>Caller buckets\<close>

lemma push_group_keys:
  "map fst (push_group k e gs) = (if k \<in> fst ` set gs then map fst gs else map fst gs @ [k])"
  by (induction k e gs rule: push_group.induct) auto

lemma push_group_distinct:
  "distinct (map fst gs) \<Longrightarrow> distinct (map fst (push_group k e gs))"
  by (simp add: push_group_keys)

lemma push_group_sound:
  "kg \<in> set (push_group k e gs) \<Longrightarrow> e' \<in> set (snd kg) \<Longrightarrow>
   (e' = e \<and> fst kg = k) \<or> (\<exists>kg' \<in> set gs. fst kg' = fst kg \<and> e' \<in> set (snd kg'))"
  by (induction k e gs rule: push_group.induct) (auto split: if_splits)

lemma push_group_new: "\<exists>kg \<in> set (push_group k e gs). fst kg = k \<and> e \<in> set (snd kg)"
  by (induction k e gs rule: push_group.induct) auto

lemma push_group_keeps:
  "kg \<in> set gs \<Longrightarrow> e' \<in> set (snd kg) \<Longrightarrow>
   \<exists>kg' \<in> set (push_group k e gs). fst kg' = fst kg \<and> e' \<in> set (snd kg')"
  by (induction k e gs rule: push_group.induct) (auto split: if_splits)

lemma foldl_group_step_keyed:
  "\<forall>kg \<in> set (snd sg). \<forall>e \<in> set (snd kg).
      fst kg = normalizePhone (call_customer_phone_number (fst e)) \<Longrightarrow>
   \<forall>kg \<in> set (snd (foldl group_step sg calls)). \<forall>e \<in> set (snd kg).
      fst kg = normalizePhone (call_customer_phone_number (fst e))"
proof (induction calls arbitrary: sg)
  case Nil
  then show ?case by simp
next
  case (Cons c calls)
  have "\<forall>kg \<in> set (snd (group_step sg c)). \<forall>e \<in> set (snd kg).
      fst kg = normalizePhone (call_customer_phone_number (fst e))"
  proof (cases "extractGclid c")
    case None
    then show ?thesis using Cons.prems by (simp add: group_step_skip)
  next
    case (Some g)
    show ?thesis
    proof (intro ballI)
      fix kg e assume kg: "kg \<in> set (snd (group_step sg c))" and e: "e \<in> set (snd kg)"
      from kg have "kg \<in> set (push_group (normalizePhone (call_customer_phone_number c)) (c, g) (snd sg))"
        by (simp add: group_step_take [OF Some])
      from push_group_sound [OF this e] Cons.prems
      show "fst kg = normalizePhone (call_customer_phone_number (fst e))" by auto
    qed
  qed
  from Cons.IH [OF this] show ?case by simp
qed

lemma foldl_group_step_distinct:
  "distinct (map fst (snd sg)) \<Longrightarrow> distinct (map fst (snd (foldl group_step sg calls)))"
proof (induction calls arbitrary: sg)
  case Nil
  then show ?case by simp
next
  case (Cons c calls)
  have "distinct (map fst (snd (group_step sg c)))"
  proof (cases "extractGclid c")
    case None
    then show ?thesis using Cons.prems by (simp add: group_step_skip)
  next
    case (Some g)
    then show ?thesis using Cons.prems by (simp add: group_step_take push_group_distinct)
  qed
  from Cons.IH [OF this] show ?case by simp
qed

lemma foldl_group_step_keeps:
  "kg \<in> set (snd sg) \<Longrightarrow> e \<in> set (snd kg) \<Longrightarrow>
   \<exists>kg' \<in> set (snd (foldl group_step sg calls)). fst kg' = fst kg \<and> e \<in> set (snd kg')"
proof (induction calls arbitrary: sg kg)
  case Nil
  then show ?case by auto
next
  case (Cons c calls)
  have "\<exists>kg' \<in> set (snd (group_step sg c)). fst kg' = fst kg \<and> e \<in> set (snd kg')"
  proof (cases "extractGclid c")
    case None
    then show ?thesis using Cons.prems by (auto simp: group_step_skip)
  next
    case (Some g)
    then show ?thesis
      using push_group_keeps [OF Cons.prems] by (simp add: group_step_take)
  qed
  then obtain kg' where "kg' \<in> set (snd (group_step sg c))" "fst kg' = fst kg" "e \<in> set (snd kg')"
    by blast
  from Cons.IH [OF this(1,3)] this(2) show ?case by simp
qed

lemma foldl_group_step_complete:
  "c \<in> set calls \<Longrightarrow> extractGclid c = Some g \<Longrightarrow>
   \<exists>kg \<in> set (snd (foldl group_step sg calls)).
      fst kg = normalizePhone (call_customer_phone_number c) \<and> (c, g) \<in> set (snd kg)"
proof (induction calls arbitrary: sg)
  case Nil
  then show ?case by simp
next
  case (Cons a calls)
  show ?case
  proof (cases "c = a")
    case True
    from push_group_new [of "normalizePhone (call_customer_phone_number c)" "(c, g)" "snd sg"]
    obtain kg where "kg \<in> set (snd (group_step sg a))"
      "fst kg = normalizePhone (call_customer_phone_number c)" "(c, g) \<in> set (snd kg)"
      using True Cons.prems(2) by (auto simp: group_step_take)
    from foldl_group_step_keeps [OF this(1,3), of calls] this(2) show ?thesis by simp
  next
    case False
    with Cons.prems have "c \<in> set calls" by simp
    from Cons.IH [OF this Cons.prems(2), of "group_step sg a"] show ?thesis by simp
  qed
qed

text \<open>
  C10. A non-empty phone string without any digit normalises to the empty string, not to
  \<open>unknown\<close>; only an absent or empty phone gives \<open>unknown\<close>. The first loop files such a
  call under the empty key. After the loop the keys of the buckets are distinct and every
  bucket holds only calls whose normalised phone is its key, so a call with a digit-free
  phone sits in the bucket of the empty key and a call without a phone in the bucket
  \<open>unknown\<close>, and neither bucket holds the other call.
\<close>

theorem normalizePhone_no_digits:
  "(p \<noteq> [] \<and> (\<forall>ch \<in> set p. \<not> is_digit ch) \<longrightarrow> normalizePhone (Some p) = [])
   \<and> (normalizePhone ph = ''unknown'' \<longleftrightarrow> ph = None \<or> ph = Some [])
   \<and> (extractGclid c = Some g \<and> g \<noteq> [] \<and> call_customer_phone_number c = Some p
        \<and> p \<noteq> [] \<and> (\<forall>ch \<in> set p. \<not> is_digit ch)
       \<longrightarrow> snd (group_step (st, gs) c) = push_group [] (c, g) gs)
   \<and> (extractGclid c = Some g \<and> g \<noteq> [] \<and> call_customer_phone_number c \<in> {None, Some []}
       \<longrightarrow> snd (group_step (st, gs) c) = push_group ''unknown'' (c, g) gs)
   \<and> distinct (map fst (snd (group_calls calls)))
   \<and> (\<forall>kg \<in> set (snd (group_calls calls)). \<forall>e \<in> set (snd kg).
         fst kg = normalizePhone (call_customer_phone_number (fst e)))
   \<and> (c1 \<in> set calls \<and> extractGclid c1 = Some g1 \<and> call_customer_phone_number c1 = Some p1
        \<and> p1 \<noteq> [] \<and> (\<forall>ch \<in> set p1. \<not> is_digit ch)
        \<and> c2 \<in> set calls \<and> extractGclid c2 = Some g2
        \<and> call_customer_phone_number c2 \<in> {None, Some []}
       \<longrightarrow> (\<exists>es. ([], es) \<in> set (snd (group_calls calls))
                 \<and> (c1, g1) \<in> set es \<and> (c2, g2) \<notin> set es)
           \<and> (\<exists>es. (''unknown'', es) \<in> set (snd (group_calls calls))
                 \<and> (c2, g2) \<in> set es \<and> (c1, g1) \<notin> set es))"
proof -
  have a: "normalizePhone (Some p) = []" if "p \<noteq> []" "\<forall>ch \<in> set p. \<not> is_digit ch" for p
  proof -
    from that(2) have "filter is_digit p = []" by (simp add: filter_empty_conv)
    with that(1) show ?thesis by (simp add: normalizePhone_def slice_last_def)
  qed
  have b: "normalizePhone None = ''unknown''" "normalizePhone (Some []) = ''unknown''"
    by (simp_all add: normalizePhone_def)
  have part1: "(p \<noteq> [] \<and> (\<forall>ch \<in> set p. \<not> is_digit ch) \<longrightarrow> normalizePhone (Some p) = [])
   \<and> (normalizePhone ph = ''unknown'' \<longleftrightarrow> ph = None \<or> ph = Some [])
   \<and> (extractGclid c = Some g \<and> g \<noteq> [] \<and> call_customer_phone_number c = Some p
        \<and> p \<noteq> [] \<and> (\<forall>ch \<in> set p. \<not> is_digit ch)
       \<longrightarrow> snd (group_step (st, gs) c) = push_group [] (c, g) gs)
   \<and> (extractGclid c = Some g \<and> g \<noteq> [] \<and> call_customer_phone_number c \<in> {None, Some []}
       \<longrightarrow> snd (group_step (st, gs) c) = push_group ''unknown'' (c, g) gs)"
    using a [of p] by (auto simp: b normalizePhone_unknown_iff group_step_def)
  let ?gs = "snd (group_calls calls)"
  have d: "distinct (map fst ?gs)"
    unfolding group_calls_def by (rule foldl_group_step_distinct) simp
  have k: "\<forall>kg \<in> set ?gs. \<forall>e \<in> set (snd kg).
         fst kg = normalizePhone (call_customer_phone_number (fst e))"
    unfolding group_calls_def by (rule foldl_group_step_keyed) simp
  have s: "(\<exists>es. ([], es) \<in> set ?gs \<and> (c1, g1) \<in> set es \<and> (c2, g2) \<notin> set es)
           \<and> (\<exists>es. (''unknown'', es) \<in> set ?gs \<and> (c2, g2) \<in> set es \<and> (c1, g1) \<notin> set es)"
    if c1: "c1 \<in> set calls" "extractGclid c1 = Some g1" "call_customer_phone_number c1 = Some p1"
       "p1 \<noteq> []" "\<forall>ch \<in> set p1. \<not> is_digit ch"
      and c2: "c2 \<in> set calls" "extractGclid c2 = Some g2"
       "call_customer_phone_number c2 \<in> {None, Some []}"
  proof -
    have n1: "normalizePhone (call_customer_phone_number c1) = []"
      using a [OF c1(4,5)] c1(3) by simp
    have n2: "normalizePhone (call_customer_phone_number c2) = ''unknown''"
      using c2(3) b by auto
    from foldl_group_step_complete [OF c1(1,2), of "(initial_stats calls, [])"] n1
    obtain kg1 where kg1: "kg1 \<in> set ?gs" "fst kg1 = []" "(c1, g1) \<in> set (snd kg1)"
      by (auto simp: group_calls_def)
    from foldl_group_step_complete [OF c2(1,2), of "(initial_stats calls, [])"] n2
    obtain kg2 where kg2: "kg2 \<in> set ?gs" "fst kg2 = ''unknown''" "(c2, g2) \<in> set (snd kg2)"
      by (auto simp: group_calls_def)
    have x1: "(c2, g2) \<notin> set (snd kg1)"
    proof
      assume "(c2, g2) \<in> set (snd kg1)"
      with k kg1(1) have "fst kg1 = normalizePhone (call_customer_phone_number c2)" by force
      with kg1(2) n2 show False by simp
    qed
    have x2: "(c1, g1) \<notin> set (snd kg2)"
    proof
      assume "(c1, g1) \<in> set (snd kg2)"
      with k kg2(1) have "fst kg2 = normalizePhone (call_customer_phone_number c1)" by force
      with kg2(2) n1 show False by simp
    qed
    from kg1(1,2) have m1: "([], snd kg1) \<in> set ?gs" by (metis prod.collapse)
    from kg2(1,2) have m2: "(''unknown'', snd kg2) \<in> set ?gs" by (metis prod.collapse)
    from m1 kg1(3) x1
    have "\<exists>es. ([], es) \<in> set ?gs \<and> (c1, g1) \<in> set es \<and> (c2, g2) \<notin> set es"
      by blast
    moreover from m2 kg2(3) x2
    have "\<exists>es. (''unknown'', es) \<in> set ?gs \<and> (c2, g2) \<in> set es \<and> (c1, g1) \<notin> set es"
      by blast
    ultimately show ?thesis ..
  qed
  from part1 d k s show ?thesis by blast
qed

theorem normalizePhone_no_digits_witness:
  "normalizePhone (Some ''---'') = [] \<and> normalizePhone None = ''unknown''
   \<and> snd (group_step (initial_stats [], []) dash_call) = [([], [(dash_call, ''g1'')])]
   \<and> snd (group_calls [dash_call, plain_call, dash_call])
       = [([], [(dash_call, ''g1''), (dash_call, ''g1'')]), (''unknown'', [(plain_call, ''g2'')])]
   \<and> distinct (map fst (snd (group_calls [dash_call, plain_call, dash_call])))"
proof -
  have d: "\<forall>ch \<in> set ''---''. \<not> is_digit ch" by (simp add: is_digit_def)
  have e: "extractGclid dash_call = Some ''g1''"
    by (simp add: extractGclid_def dash_call_def blank_call_def)
  have p: "call_customer_phone_number dash_call = Some ''---''"
    by (simp add: dash_call_def blank_call_def)
  have g: "snd (group_calls [dash_call, plain_call, dash_call])
       = [([], [(dash_call, ''g1''), (dash_call, ''g1'')]), (''unknown'', [(plain_call, ''g2'')])]"
    by code_simp
  note t = normalizePhone_no_digits [of "''---''" None dash_call "''g1''" "initial_stats []" "[]"
      "[dash_call, plain_call, dash_call]"]
  from t d e p have 1: "normalizePhone (Some ''---'') = []" by simp
  from t have 2: "normalizePhone None = ''unknown''" by simp
  from t d e p have 3: "snd (group_step (initial_stats [], []) dash_call) = [([], [(dash_call, ''g1'')])]"
    by simp
  from t have 4: "distinct (map fst (snd (group_calls [dash_call, plain_call, dash_call])))"
    by blast
  from 1 2 3 g 4 show ?thesis by blast
qed

subsection \<open>Two runs of the handler\<close>

text \<open>
  C9. Two runs of the handler on the same host, at any two instants and with any query
  parameters, whose fetches deliver the same calls, both succeed with the same list of
  conversions and the same counters. The time of the run enters the date range only; the
  time of a conversion is formatted from the start time of its own call.
\<close>

theorem handler_two_runs:
  "valid_time now1 \<and> valid_time (now1 - hoursBack ps1 * 60 * 60 * 1000)
   \<and> valid_time now2 \<and> valid_time (now2 - hoursBack ps2 * 60 * 60 * 1000)
   \<and> fetch1 (now1 - hoursBack ps1 * 60 * 60 * 1000) now1 = Inr calls
   \<and> fetch2 (now2 - hoursBack ps2 * 60 * 60 * 1000) now2 = Inr calls
   \<longrightarrow> (\<exists>r1 r2. handler h now1 ps1 fetch1 = Inr r1 \<and> handler h now2 ps2 fetch2 = Inr r2
         \<and> conversions r1 = conversions r2
         \<and> response_stats r1 = response_stats r2
         \<and> conversions r1 = fst (process_calls h calls)
         \<and> (\<forall>cv \<in> set (conversions r1).
               \<exists>c \<in> set calls. callId cv = call_id c
                 \<and> conversionTime cv = formatGoogleAdsTime h (call_start_time c)))"
proof
  assume f: "valid_time now1 \<and> valid_time (now1 - hoursBack ps1 * 60 * 60 * 1000)
   \<and> valid_time now2 \<and> valid_time (now2 - hoursBack ps2 * 60 * 60 * 1000)
   \<and> fetch1 (now1 - hoursBack ps1 * 60 * 60 * 1000) now1 = Inr calls
   \<and> fetch2 (now2 - hoursBack ps2 * 60 * 60 * 1000) now2 = Inr calls"
  have t: "\<exists>c \<in> set calls. callId cv = call_id c
                 \<and> conversionTime cv = formatGoogleAdsTime h (call_start_time c)"
    if "cv \<in> set (fst (process_calls h calls))" for cv
  proof -
    from that obtain kg e where kg: "kg \<in> set (for_in_order (snd (group_calls calls)))"
      and e: "e \<in> set (snd kg)" and cv: "cv = make_conversion h (snd kg) e"
      unfolding process_calls_fst by (auto split: if_splits)
    from kg have "kg \<in> set (snd (group_calls calls))" by (simp add: for_in_order_set)
    from group_calls_entries [OF this e] have "fst e \<in> set calls" by simp
    moreover have "callId cv = call_id (fst e)"
      "conversionTime cv = formatGoogleAdsTime h (call_start_time (fst e))"
      by (simp_all add: cv make_conversion_def)
    ultimately show ?thesis by auto
  qed
  from f t show "\<exists>r1 r2. handler h now1 ps1 fetch1 = Inr r1 \<and> handler h now2 ps2 fetch2 = Inr r2
         \<and> conversions r1 = conversions r2
         \<and> response_stats r1 = response_stats r2
         \<and> conversions r1 = fst (process_calls h calls)
         \<and> (\<forall>cv \<in> set (conversions r1).
               \<exists>c \<in> set calls. callId cv = call_id c
                 \<and> conversionTime cv = formatGoogleAdsTime h (call_start_time c))"
    by (simp add: handler_def Let_def)
qed

theorem handler_two_runs_witness:
  "valid_time 1000 \<and> valid_time (1000 - hoursBack default_params * 60 * 60 * 1000)
   \<and> valid_time 2000
   \<and> valid_time (2000 - hoursBack (default_params\<lparr>hours := Some 24\<rparr>) * 60 * 60 * 1000)
   \<and> fixed_fetch (1000 - hoursBack default_params * 60 * 60 * 1000) 1000 = Inr sample_calls
   \<and> fixed_fetch (2000 - hoursBack (default_params\<lparr>hours := Some 24\<rparr>) * 60 * 60 * 1000) 2000
       = Inr sample_calls
   \<and> \<not> isl (handler no_host 1000 default_params fixed_fetch)
   \<and> \<not> isl (handler no_host 2000 (default_params\<lparr>hours := Some 24\<rparr>) fixed_fetch)
   \<and> conversions (projr (handler no_host 1000 default_params fixed_fetch))
       = conversions (projr (handler no_host 2000 (default_params\<lparr>hours := Some 24\<rparr>) fixed_fetch))"
proof -
  have v: "valid_time 1000" "valid_time (1000 - hoursBack default_params * 60 * 60 * 1000)"
    "valid_time 2000"
    "valid_time (2000 - hoursBack (default_params\<lparr>hours := Some 24\<rparr>) * 60 * 60 * 1000)"
    by (simp_all add: valid_time_def hoursBack_def or_int_def default_params_def)
  have a: "fixed_fetch (1000 - hoursBack default_params * 60 * 60 * 1000) 1000 = Inr sample_calls"
    by (simp add: fixed_fetch_def)
  have b: "fixed_fetch (2000 - hoursBack (default_params\<lparr>hours := Some 24\<rparr>) * 60 * 60 * 1000) 2000
       = Inr sample_calls"
    by (simp add: fixed_fetch_def)
  from handler_two_runs [of 1000 default_params 2000 "default_params\<lparr>hours := Some 24\<rparr>"
      fixed_fetch sample_calls fixed_fetch no_host] v a b
  obtain r1 r2 where "handler no_host 1000 default_params fixed_fetch = Inr r1"
    "handler no_host 2000 (default_params\<lparr>hours := Some 24\<rparr>) fixed_fetch = Inr r2"
    "conversions r1 = conversions r2"
    by blast
  with v a b show ?thesis by simp
qed

end
